theory Spec2Isabelle
  imports Main
begin

section \<open>The IR as the passes see it\<close>

text \<open>
  The passes of \<^verbatim>\<open>src/simdswift/pass\<close> rewrite functions of a typed SSA intermediate
  representation. The host infrastructure is not part of the repository; the model keeps
  of it what the passes inspect: the kind of a type, the opcode, result type and operands
  of an instruction, the instruction lists of the basic blocks, and the identity of values.
  Pointee types, alignment, calling conventions and debug locations are left out: no
  branch of the passes reads them.
\<close>

datatype ty =
    VoidTy
  | FloatTy
  | DoubleTy
  | OtherFPTy nat
  | LabelTy
  | MetadataTy
  | IntegerTy nat
  | FunctionTy
  | StructTy
  | ArrayTy
  | PointerTy
  | VectorTy ty nat

datatype message =
    IllegalTypeWarning ty
  | DontKnowType ty
  | StillUsedWarning nat

datatype error =
    IllegalType ty
  | AlreadyHasSimd
  | NoSimdVersion
  | CxxExceptions
  | VectorInstruction
  | InlineAssembly
  | UnknownInstruction
  | NoSimdPhi
  | CheckIllegalType ty
  | CmpXchgUnsupported
  | HostAssert string

definition bindE :: "error + 'a \<Rightarrow> ('a \<Rightarrow> error + 'b) \<Rightarrow> error + 'b" where
  "bindE m f = (case m of Inl e \<Rightarrow> Inl e | Inr x \<Rightarrow> f x)"

section \<open>Shadow-type utility of the full hardener (avxswift.cpp)\<close>

text \<open>
  \<^verbatim>\<open>getSimdNum\<close> writes to the error stream and, in its default case, fails an assertion.
  \<open>getSimdNum_errs\<close> is the function with both effects explicit: the messages written and
  the result, \<open>Inl\<close> for the failed assertion. \<open>getSimdNum\<close> is its result alone.
\<close>

definition getSimdNum_errs :: "ty \<Rightarrow> message list \<times> (error + nat)" where
  "getSimdNum_errs t =
     (case t of
        IntegerTy s \<Rightarrow>
          (if s = 1 then ([], Inr 4)
           else if s \<noteq> 8 \<and> s \<noteq> 16 \<and> s \<noteq> 32 \<and> s \<noteq> 64
             then ([IllegalTypeWarning t], Inr 4)
           else ([], Inr (256 div s)))
      | PointerTy \<Rightarrow> ([], Inr 4)
      | DoubleTy \<Rightarrow> ([], Inr 4)
      | FloatTy \<Rightarrow> ([], Inr 8)
      | _ \<Rightarrow> ([DontKnowType t], Inl (IllegalType t)))"

definition getSimdNum :: "ty \<Rightarrow> error + nat" where
  "getSimdNum t = snd (getSimdNum_errs t)"

definition getSimdType :: "ty \<Rightarrow> error + ty" where
  "getSimdType t =
     (if t = IntegerTy 1 then Inr (VectorTy (IntegerTy 64) 4)
      else bindE (getSimdNum t) (\<lambda>n. Inr (VectorTy t n)))"


text \<open>The width in bits that the target gives a scalar lane (pointers are 64 bits wide).\<close>

fun laneBits :: "ty \<Rightarrow> nat" where
  "laneBits (IntegerTy s) = s"
| "laneBits PointerTy = 64"
| "laneBits DoubleTy = 64"
| "laneBits FloatTy = 32"
| "laneBits _ = 0"

fun vectorBits :: "ty \<Rightarrow> nat" where
  "vectorBits (VectorTy e n) = n * laneBits e"
| "vectorBits _ = 0"

section \<open>Values, instructions and functions\<close>

datatype castop =
  Trunc | ZExt | SExt | FPToUI | FPToSI | UIToFP | SIToFP | FPTrunc | FPExt
  | PtrToInt | IntToPtr | BitCast | AddrSpaceCast

datatype opcode =
    Ret | Br | Switch | IndirectBr | Invoke | Resume | Unreachable
  | BinaryOp string | ICmp string | FCmp string | Select | GetElementPtr bool
  | Cast castop | PHI | Alloca | Load | Store | AtomicCmpXchg | AtomicRMW
  | ExtractValue | InsertValue | Call | VAArg | Fence | LandingPad
  | ExtractElement | InsertElement | ShuffleVector | OtherOp string

text \<open>
  Constants. A function symbol is a constant of the host IR (a global value). The IR
  builder folds an operation whose operands are all constants into a constant expression
  and inserts no instruction; \<open>CExpr\<close> is such an expression, kept symbolic.
\<close>

datatype const =
    CInt nat int
  | COther ty string
  | CFunction string
  | CUndef ty
  | CSplat nat const
  | CMask "nat list"
  | CExpr opcode ty "const list"

fun constTy :: "const \<Rightarrow> ty" where
  "constTy (CInt w v) = IntegerTy w"
| "constTy (COther t s) = t"
| "constTy (CFunction f) = PointerTy"
| "constTy (CUndef t) = t"
| "constTy (CSplat n c) = VectorTy (constTy c) n"
| "constTy (CMask xs) = VectorTy (IntegerTy 32) (length xs)"
| "constTy (CExpr oc t cs) = t"

datatype val =
    VConst const
  | VArg nat
  | VInst nat
  | VBlock nat
  | VAsm string
  | VMeta

text \<open>
  An instruction with its operand list. The operand layout of the model: a conditional
  branch is \<open>[cond, ifTrue, ifFalse]\<close>, an unconditional one \<open>[dest]\<close>; a call is its
  arguments followed by the callee; a store is \<open>[value, address]\<close>, a load \<open>[address]\<close>,
  a compare-exchange \<open>[address, expected, new]\<close>, a read-modify-write \<open>[address, value]\<close>,
  an insertvalue \<open>[aggregate, value]\<close>. A \<phi>-node keeps its incoming blocks in
  \<open>inblocks\<close>, parallel to \<open>ops\<close>. \<open>weights\<close> is the branch-weight metadata.
\<close>

record instr =
  opc :: opcode
  ity :: ty
  ops :: "val list"
  inblocks :: "nat list"
  parent :: nat
  iname :: string
  weights :: "(nat \<times> nat) option"

definition mkInst :: "opcode \<Rightarrow> ty \<Rightarrow> val list \<Rightarrow> string \<Rightarrow> instr" where
  "mkInst oc t vs nm =
     \<lparr>opc = oc, ity = t, ops = vs, inblocks = [], parent = 0, iname = nm, weights = None\<rparr>"

text \<open>
  A function: its name, the types of its arguments, the store of its instructions
  (instruction identity is a number), the instruction list of every block, the order of
  its blocks, and the next unused instruction and block numbers.
\<close>

record func =
  fname :: string
  fargs :: "ty list"
  insts :: "nat \<Rightarrow> instr option"
  blocks :: "nat \<Rightarrow> nat list"
  layout :: "nat list"
  nextInst :: nat
  nextBlock :: nat

definition typeOf :: "'a func_scheme \<Rightarrow> val \<Rightarrow> ty" where
  "typeOf f v =
     (case v of
        VConst c \<Rightarrow> constTy c
      | VArg k \<Rightarrow> (if k < length (fargs f) then fargs f ! k else VoidTy)
      | VInst i \<Rightarrow> (case insts f i of Some I \<Rightarrow> ity I | None \<Rightarrow> VoidTy)
      | VBlock b \<Rightarrow> LabelTy
      | VAsm a \<Rightarrow> PointerTy
      | VMeta \<Rightarrow> MetadataTy)"


definition getVectorNumElements :: "ty \<Rightarrow> error + nat" where
  "getVectorNumElements t =
     (case t of VectorTy e n \<Rightarrow> Inr n | _ \<Rightarrow> Inl (HostAssert ''not a vector type''))"

definition getVectorElementType :: "ty \<Rightarrow> error + ty" where
  "getVectorElementType t =
     (case t of VectorTy e n \<Rightarrow> Inr e | _ \<Rightarrow> Inl (HostAssert ''not a vector type''))"

definition isConstant :: "val \<Rightarrow> bool" where
  "isConstant v = (case v of VConst c \<Rightarrow> True | _ \<Rightarrow> False)"

definition theConst :: "val \<Rightarrow> const" where
  "theConst v = (case v of VConst c \<Rightarrow> c | _ \<Rightarrow> CUndef VoidTy)"

definition asInstruction :: "val \<Rightarrow> nat option" where
  "asInstruction v = (case v of VInst i \<Rightarrow> Some i | _ \<Rightarrow> None)"

definition getInst :: "'a func_scheme \<Rightarrow> nat \<Rightarrow> error + instr" where
  "getInst f i =
     (case insts f i of None \<Rightarrow> Inl (HostAssert ''no such instruction'') | Some I \<Rightarrow> Inr I)"

definition opcOf :: "'a func_scheme \<Rightarrow> nat \<Rightarrow> opcode option" where
  "opcOf f i = map_option opc (insts f i)"

definition getOperand :: "'a func_scheme \<Rightarrow> nat \<Rightarrow> nat \<Rightarrow> error + val" where
  "getOperand f i k =
     bindE (getInst f i) (\<lambda>I.
       if k < length (ops I) then Inr (ops I ! k)
       else Inl (HostAssert ''getOperand out of range''))"

definition setOperand :: "'a func_scheme \<Rightarrow> nat \<Rightarrow> nat \<Rightarrow> val \<Rightarrow> 'a func_scheme" where
  "setOperand f i k v =
     (case insts f i of
        None \<Rightarrow> f
      | Some I \<Rightarrow> f\<lparr>insts := (insts f)(i \<mapsto> I\<lparr>ops := (ops I)[k := v]\<rparr>)\<rparr>)"

subsection \<open>The IR builder\<close>

text \<open>
  An insertion point is a block and the instruction before which new instructions go
  (\<open>None\<close>: the end of the block). Successive insertions at one point appear in the order
  of their creation.
\<close>

type_synonym ipoint = "nat \<times> nat option"

fun ins_before :: "nat \<Rightarrow> nat \<Rightarrow> nat list \<Rightarrow> nat list" where
  "ins_before new x [] = [new]"
| "ins_before new x (y # ys) = (if y = x then new # y # ys else y # ins_before new x ys)"

fun nextIn :: "nat \<Rightarrow> nat list \<Rightarrow> nat option" where
  "nextIn x [] = None"
| "nextIn x (y # ys) = (if y = x then (case ys of [] \<Rightarrow> None | z # zs \<Rightarrow> Some z) else nextIn x ys)"

definition Insert :: "'a func_scheme \<Rightarrow> ipoint \<Rightarrow> instr \<Rightarrow> 'a func_scheme \<times> val" where
  "Insert f ip I =
     (let i = nextInst f; b = fst ip in
      (f\<lparr>insts := (insts f)(i \<mapsto> I\<lparr>parent := b\<rparr>),
         blocks := (blocks f)(b := (case snd ip of
                                      None \<Rightarrow> blocks f b @ [i]
                                    | Some x \<Rightarrow> ins_before i x (blocks f b))),
         nextInst := Suc i\<rparr>,
       VInst i))"

definition Create ::
  "'a func_scheme \<Rightarrow> ipoint \<Rightarrow> opcode \<Rightarrow> ty \<Rightarrow> val list \<Rightarrow> string \<Rightarrow> 'a func_scheme \<times> val" where
  "Create f ip oc t vs nm =
     (if list_all isConstant vs then (f, VConst (CExpr oc t (map theConst vs)))
      else Insert f ip (mkInst oc t vs nm))"

definition CreateCast ::
  "'a func_scheme \<Rightarrow> ipoint \<Rightarrow> castop \<Rightarrow> val \<Rightarrow> ty \<Rightarrow> string \<Rightarrow> 'a func_scheme \<times> val" where
  "CreateCast f ip co v t nm =
     (if typeOf f v = t then (f, v) else Create f ip (Cast co) t [v] nm)"

definition CreateCall ::
  "'a func_scheme \<Rightarrow> ipoint \<Rightarrow> string \<Rightarrow> val list \<Rightarrow> ty \<Rightarrow> 'a func_scheme \<times> val" where
  "CreateCall f ip callee args rt =
     Insert f ip (mkInst Call rt (args @ [VConst (CFunction callee)]) [])"

definition CreateExtractElement ::
  "'a func_scheme \<Rightarrow> ipoint \<Rightarrow> val \<Rightarrow> nat \<Rightarrow> error + 'a func_scheme \<times> val" where
  "CreateExtractElement f ip vec idx =
     bindE (getVectorElementType (typeOf f vec)) (\<lambda>e.
       Inr (Create f ip ExtractElement e [vec, VConst (CInt 64 (int idx))] []))"

definition CreateInsertElement ::
  "'a func_scheme \<Rightarrow> ipoint \<Rightarrow> val \<Rightarrow> val \<Rightarrow> nat \<Rightarrow> 'a func_scheme \<times> val" where
  "CreateInsertElement f ip vec v idx =
     Create f ip InsertElement (typeOf f vec) [vec, v, VConst (CInt 64 (int idx))] []"

definition cmpResultType :: "ty \<Rightarrow> ty" where
  "cmpResultType t = (case t of VectorTy e n \<Rightarrow> VectorTy (IntegerTy 1) n | _ \<Rightarrow> IntegerTy 1)"

definition CreateCmp ::
  "'a func_scheme \<Rightarrow> ipoint \<Rightarrow> opcode \<Rightarrow> val \<Rightarrow> val \<Rightarrow> 'a func_scheme \<times> val" where
  "CreateCmp f ip oc a b = Create f ip oc (cmpResultType (typeOf f a)) [a, b] []"

definition CreateShuffleVector ::
  "'a func_scheme \<Rightarrow> ipoint \<Rightarrow> val \<Rightarrow> val \<Rightarrow> nat list \<Rightarrow> error + 'a func_scheme \<times> val" where
  "CreateShuffleVector f ip a b msk =
     bindE (getVectorElementType (typeOf f a)) (\<lambda>e.
       Inr (Create f ip ShuffleVector (VectorTy e (length msk)) [a, b, VConst (CMask msk)] []))"

fun foldE :: "('s \<Rightarrow> 'a \<Rightarrow> error + 's) \<Rightarrow> 'a list \<Rightarrow> 's \<Rightarrow> error + 's" where
  "foldE f [] s = Inr s"
| "foldE f (x # xs) s = bindE (f s x) (foldE f xs)"


definition startswith :: "string \<Rightarrow> string \<Rightarrow> bool" where
  "startswith s p = (take (length p) s = p)"

definition need :: "'a option \<Rightarrow> error + 'a" where
  "need v = (case v of None \<Rightarrow> Inl (HostAssert ''null pointer'') | Some x \<Rightarrow> Inr x)"

section \<open>The full hardener (avxswift.cpp)\<close>


text \<open>
  The transformer: the function under rewriting, the shadow map \<open>vsm\<close>, the work lists
  \<open>origs\<close>, \<open>phis\<close> and \<open>tocheck\<close> (sink, shadow instruction or null, operand index), and
  the warnings written so far. The operand index is an \<^verbatim>\<open>unsigned\<close>; the function-pointer
  entry stores \<^verbatim>\<open>-1\<close>, which is \<open>2^32 - 1\<close>.
\<close>

record swift = func +
  vsm :: "val \<Rightarrow> val option"
  origs :: "nat list"
  phis :: "nat list"
  tocheck :: "(nat \<times> nat option \<times> nat) list"
  errs :: "message list"


definition SIMD_SUFFIX :: string where
  "SIMD_SUFFIX = ''.simd''"

definition ignored :: "string list" where
  "ignored = [''tx_cond_start'', ''tx_start'', ''tx_end'', ''tx_abort'', ''tx_increment'',
              ''tx_pthread_mutex_lock'', ''tx_pthread_mutex_unlock'', ''__dummy__'']"

definition isIgnoredFunc :: "string option \<Rightarrow> bool" where
  "isIgnoredFunc F =
     (case F of
        None \<Rightarrow> False
      | Some fn \<Rightarrow>
          (if startswith fn ''llvm.lifetime.end'' \<or> startswith fn ''llvm.lifetime.start''
             then False
           else if startswith fn ''llvm.'' \<or> startswith fn ''SIMDSWIFT'' \<or> fn \<in> set ignored
             then True
           else False))"

definition simds_add :: "swift \<Rightarrow> val \<Rightarrow> val \<Rightarrow> error + swift" where
  "simds_add st v simd =
     (case vsm st v of
        Some old \<Rightarrow> Inl AlreadyHasSimd
      | None \<Rightarrow> Inr (st\<lparr>vsm := (vsm st)(v \<mapsto> simd)\<rparr>))"

definition isOpaque :: "'a func_scheme \<Rightarrow> val \<Rightarrow> bool" where
  "isOpaque f v =
     (case v of
        VBlock b \<Rightarrow> True
      | VConst c \<Rightarrow> (case c of CFunction fn \<Rightarrow> True | _ \<Rightarrow> False)
      | VAsm a \<Rightarrow> True
      | VMeta \<Rightarrow> True
      | VInst i \<Rightarrow> opcOf f i = Some Invoke \<or> opcOf f i = Some LandingPad
      | VArg k \<Rightarrow> False)"




fun insertLanes ::
  "'a func_scheme \<Rightarrow> ipoint \<Rightarrow> val \<Rightarrow> val \<Rightarrow> nat list \<Rightarrow> 'a func_scheme \<times> val" where
  "insertLanes f ip vec v [] = (f, vec)"
| "insertLanes f ip vec v (i # is) =
     (case CreateInsertElement f ip vec v i of (f', vec') \<Rightarrow> insertLanes f' ip vec' v is)"


definition getSimdAllOnes :: val where
  "getSimdAllOnes = VConst (CSplat 4 (CInt 64 18446744073709551615))"


text \<open>The tail of \<^verbatim>\<open>simdInst\<close>: the shadow instruction \<open>IS\<close> replaces the original.\<close>

definition replaceOriginal :: "swift \<Rightarrow> ipoint \<Rightarrow> nat \<Rightarrow> instr \<Rightarrow> error + swift" where
  "replaceOriginal st ipA I IS =
     (case Insert st ipA IS of
        (st1, s) \<Rightarrow>
          bindE (simds_add st1 (VInst I) s) (\<lambda>st2. Inr (st2\<lparr>origs := origs st2 @ [I]\<rparr>)))"


definition isUnconditional :: "instr \<Rightarrow> bool" where
  "isUnconditional I = (length (ops I) = 1)"

definition setCondition :: "'a func_scheme \<Rightarrow> nat \<Rightarrow> val \<Rightarrow> error + 'a func_scheme" where
  "setCondition f i c =
     bindE (getInst f i) (\<lambda>I.
       if length (ops I) = 3 then Inr (setOperand f i 0 c)
       else Inl (HostAssert ''cannot set condition of unconditional branch''))"










definition getCalledFunction :: "instr \<Rightarrow> string option" where
  "getCalledFunction CI =
     (if ops CI = [] then None
      else (case last (ops CI) of
              VConst c \<Rightarrow> (case c of CFunction fn \<Rightarrow> Some fn | _ \<Rightarrow> None)
            | _ \<Rightarrow> None))"

definition getNumArgOperands :: "instr \<Rightarrow> nat" where
  "getNumArgOperands CI = length (ops CI) - 1"






definition getIncomingValueForBlock :: "instr \<Rightarrow> nat \<Rightarrow> error + val" where
  "getIncomingValueForBlock PN b =
     (case map_of (zip (inblocks PN) (ops PN)) b of
        None \<Rightarrow> Inl (HostAssert ''Invalid basic block argument'')
      | Some v \<Rightarrow> Inr v)"

definition addIncoming :: "'a func_scheme \<Rightarrow> nat \<Rightarrow> val \<Rightarrow> nat \<Rightarrow> 'a func_scheme" where
  "addIncoming f PN v b =
     (case insts f PN of
        None \<Rightarrow> f
      | Some I \<Rightarrow>
          f\<lparr>insts := (insts f)(PN \<mapsto> I\<lparr>ops := ops I @ [v], inblocks := inblocks I @ [b]\<rparr>)\<rparr>)"



definition emptyPhi :: "'a func_scheme \<Rightarrow> nat \<Rightarrow> 'a func_scheme" where
  "emptyPhi f PI =
     (case insts f PI of
        None \<Rightarrow> f
      | Some I \<Rightarrow> f\<lparr>insts := (insts f)(PI \<mapsto> I\<lparr>ops := [], inblocks := []\<rparr>)\<rparr>)"

definition getNumUses :: "'a func_scheme \<Rightarrow> nat \<Rightarrow> nat" where
  "getNumUses f i =
     sum_list (map (\<lambda>j. case insts f j of
                            None \<Rightarrow> 0
                          | Some J \<Rightarrow> count_list (ops J) (VInst i))
                   [0..<nextInst f])"

definition eraseFromParent :: "'a func_scheme \<Rightarrow> nat \<Rightarrow> 'a func_scheme" where
  "eraseFromParent f i =
     (case insts f i of
        None \<Rightarrow> f
      | Some I \<Rightarrow>
          f\<lparr>insts := (insts f)(i := None),
            blocks := (blocks f)(parent I := removeAll i (blocks f (parent I)))\<rparr>)"

definition removeOriginalInsts :: "swift \<Rightarrow> swift" where
  "removeOriginalInsts st =
     foldl (\<lambda>s I. if getNumUses s I > 0 then s\<lparr>errs := errs s @ [StillUsedWarning I]\<rparr>
                   else eraseFromParent s I)
           (foldl emptyPhi st (phis st)) (rev (origs st))"

subsection \<open>Block splitting, as the host's utilities do it\<close>

definition isPHI :: "'a func_scheme \<Rightarrow> nat \<Rightarrow> bool" where
  "isPHI f i = (opcOf f i = Some PHI)"

definition leadingPhis :: "'a func_scheme \<Rightarrow> nat \<Rightarrow> nat list" where
  "leadingPhis f b = takeWhile (isPHI f) (blocks f b)"

definition successors :: "instr \<Rightarrow> nat list" where
  "successors I = List.map_filter (\<lambda>v. case v of VBlock b \<Rightarrow> Some b | _ \<Rightarrow> None) (ops I)"

fun ins_after :: "nat \<Rightarrow> nat \<Rightarrow> nat list \<Rightarrow> nat list" where
  "ins_after new x [] = [new]"
| "ins_after new x (y # ys) = (if y = x then y # new # ys else y # ins_after new x ys)"

definition setIncomingBlocks :: "'a func_scheme \<Rightarrow> nat \<Rightarrow> nat \<Rightarrow> nat \<Rightarrow> 'a func_scheme" where
  "setIncomingBlocks f PN old new =
     (case insts f PN of
        None \<Rightarrow> f
      | Some I \<Rightarrow>
          f\<lparr>insts := (insts f)(PN \<mapsto>
               I\<lparr>inblocks := map (\<lambda>b. if b = old then new else b) (inblocks I)\<rparr>)\<rparr>)"

definition renameIncoming ::
  "'a func_scheme \<Rightarrow> nat list \<Rightarrow> nat \<Rightarrow> nat \<Rightarrow> 'a func_scheme" where
  "renameIncoming f succs old new =
     fold (\<lambda>S g. fold (\<lambda>PN h. setIncomingBlocks h PN old new) (leadingPhis g S) g) succs f"

text \<open>What the two \<phi>-loops do to one \<phi>-node, for the statements below.\<close>

definition renamed :: "nat \<Rightarrow> nat \<Rightarrow> instr \<Rightarrow> instr" where
  "renamed old new J = J\<lparr>inblocks := map (\<lambda>b. if b = old then new else b) (inblocks J)\<rparr>"



text \<open>
  \<^verbatim>\<open>BasicBlock::splitBasicBlock\<close>: the instructions from \<open>I\<close> on move to a new block placed
  after the old one, the old block gets an unconditional branch to the new one, and the
  \<phi>-nodes of the successors of the new block name the new block where they named the old.
\<close>

definition splitBasicBlock :: "'a func_scheme \<Rightarrow> nat \<Rightarrow> nat \<Rightarrow> error + 'a func_scheme \<times> nat" where
  "splitBasicBlock f this I =
     (if I \<notin> set (blocks f this) then Inl (HostAssert ''split point not in block'')
      else
        (let New = nextBlock f;
             kept = takeWhile (\<lambda>x. x \<noteq> I) (blocks f this);
             moved = dropWhile (\<lambda>x. x \<noteq> I) (blocks f this);
             f1 = f\<lparr>insts := (\<lambda>j. if j \<in> set moved
                                     then map_option (\<lambda>J. J\<lparr>parent := New\<rparr>) (insts f j)
                                     else insts f j),
                    blocks := (blocks f)(this := kept, New := moved),
                    layout := ins_after New this (layout f),
                    nextBlock := Suc New\<rparr>;
             f2 = fst (Insert f1 (this, None) (mkInst Br VoidTy [VBlock New] []));
             succs = (case insts f2 (last moved) of None \<Rightarrow> [] | Some T \<Rightarrow> successors T);
             f3 = renameIncoming f2 succs this New
         in Inr (f3, New)))"

text \<open>
  \<^verbatim>\<open>SplitBlockAndInsertIfThen(Cond, SplitBefore, Unreachable = true, BranchWeights)\<close>:
  splits before \<open>SplitBefore\<close>, creates the then-block between head and tail with an
  \<^verbatim>\<open>unreachable\<close> terminator, replaces the head's terminator by a branch on \<open>Cond\<close> to the
  then-block (true) or the tail (false) that carries the weights, and returns the
  then-block's terminator.
\<close>

definition SplitBlockAndInsertIfThen ::
  "'a func_scheme \<Rightarrow> val \<Rightarrow> nat \<Rightarrow> nat \<times> nat \<Rightarrow> error + 'a func_scheme \<times> nat" where
  "SplitBlockAndInsertIfThen f Cond SplitBefore w =
     bindE (getInst f SplitBefore) (\<lambda>sb.
       let Head = parent sb in
       bindE (splitBasicBlock f Head SplitBefore) (\<lambda>(f1, Tail).
         let HeadOldTerm = last (blocks f1 Head);
             ThenBlock = nextBlock f1;
             f2 = f1\<lparr>blocks := (blocks f1)(ThenBlock := []),
                     layout := ins_before ThenBlock Tail (layout f1),
                     nextBlock := Suc ThenBlock\<rparr>;
             CheckTerm = nextInst f2;
             f3 = fst (Insert f2 (ThenBlock, None) (mkInst Unreachable VoidTy [] []));
             f4 = fst (Insert f3 (Head, Some HeadOldTerm)
                         ((mkInst Br VoidTy [Cond, VBlock ThenBlock, VBlock Tail] [])
                            \<lparr>weights := Some w\<rparr>));
             f5 = eraseFromParent f4 HeadOldTerm
         in Inr (f5, CheckTerm)))"

subsection \<open>Check injection\<close>

definition i64SimdTy :: ty where
  "i64SimdTy = VectorTy (IntegerTy 64) 4"

text \<open>
  The loop that closes a branch check: every leading \<phi>-node of every successor of the
  original branch gets an incoming edge from the check block, with the value it has for
  the block of the original branch.
\<close>

definition addIncomingFrom ::
  "nat \<Rightarrow> nat \<Rightarrow> 'a func_scheme \<Rightarrow> nat \<Rightarrow> error + 'a func_scheme" where
  "addIncomingFrom origBB checkBB f PN =
     bindE (getInst f PN) (\<lambda>pn.
     bindE (getIncomingValueForBlock pn origBB) (\<lambda>v.
       Inr (addIncoming f PN v checkBB)))"

definition addCheckBlockToPhis ::
  "'a func_scheme \<Rightarrow> nat list \<Rightarrow> nat \<Rightarrow> nat \<Rightarrow> error + 'a func_scheme" where
  "addCheckBlockToPhis f succs origBB checkBB =
     foldE (\<lambda>s Succ. foldE (addIncomingFrom origBB checkBB) (leadingPhis s Succ) s) succs f"

definition insertCheck_Br :: "swift \<Rightarrow> nat \<Rightarrow> nat option \<Rightarrow> error + swift" where
  "insertCheck_Br st userI I =
     bindE (getInst st userI) (\<lambda>u.
     bindE (need I) (\<lambda>i.
       case CreateCall st (parent u, Some userI) ''llvm.x86.avx.ptestnzc.256''
              [VInst i, getSimdAllOnes] (IntegerTy 32) of
         (st1, check) \<Rightarrow>
       case CreateCmp st1 (parent u, Some userI) (ICmp ''eq'') check (VConst (CInt 32 1)) of
         (st2, checkcond) \<Rightarrow>
       bindE (SplitBlockAndInsertIfThen st2 checkcond userI (1, 10000)) (\<lambda>(st3, checkTerm).
       bindE (getInst st3 checkTerm) (\<lambda>ct.
       case CreateCall st3 (parent ct, Some checkTerm) ''SIMDSWIFT_mask_i64''
              [VInst i] i64SimdTy of
         (st4, correctedI) \<Rightarrow>
       bindE (getInst st4 userI) (\<lambda>origBI.
       case CreateCall st4 (parent ct, Some checkTerm) ''llvm.x86.avx.ptestz.256''
              [correctedI, getSimdAllOnes] (IntegerTy 32) of
         (st5, res) \<Rightarrow>
       case CreateCmp st5 (parent ct, Some checkTerm) (ICmp ''eq'') res (VConst (CInt 32 0)) of
         (st6, newcond) \<Rightarrow>
       if length (ops origBI) \<noteq> 3
         then Inl (HostAssert ''cannot set condition of unconditional branch'')
       else
       case Insert st6 (parent ct, Some checkTerm)
              (origBI\<lparr>ops := (ops origBI)[0 := newcond], iname := []\<rparr>) of
         (st7, cloneBI) \<Rightarrow>
       bindE (addCheckBlockToPhis st7 (successors origBI) (parent origBI) (parent ct)) (\<lambda>st8.
         Inr (eraseFromParent st8 checkTerm)))))))"






subsection \<open>The pass driver\<close>

text \<open>
  \<^verbatim>\<open>runOnFunction\<close> visits the blocks in the depth-first order of the dominator tree, which
  the host computes: the order is the parameter \<open>domOrder\<close>. Inside a block the source
  memorises the next original instruction before it rewrites the current one, and the
  rewriting inserts only directly around the current instruction, so the instructions
  visited are those the block has when the visit starts. The two loops of the driver are
  the same text in avxswift.cpp and avxfloatswift.cpp; they are written once, over the
  variant's \<^verbatim>\<open>simdArgs\<close> and \<^verbatim>\<open>simdInst\<close>.
\<close>

fun walkInsts ::
  "(swift \<Rightarrow> nat \<Rightarrow> error + swift) \<Rightarrow> (swift \<Rightarrow> nat \<Rightarrow> error + swift) \<Rightarrow>
   bool \<Rightarrow> swift \<Rightarrow> nat list \<Rightarrow> error + bool \<times> swift" where
  "walkInsts sArgs sInst shadowedArgs st [] = Inr (shadowedArgs, st)"
| "walkInsts sArgs sInst shadowedArgs st (i # is) =
     bindE (if \<not> shadowedArgs then sArgs st i else Inr st) (\<lambda>st1.
     bindE (sInst st1 i) (\<lambda>st2. walkInsts sArgs sInst True st2 is))"

fun walkDom ::
  "(swift \<Rightarrow> nat \<Rightarrow> error + swift) \<Rightarrow> (swift \<Rightarrow> nat \<Rightarrow> error + swift) \<Rightarrow>
   bool \<Rightarrow> swift \<Rightarrow> nat list \<Rightarrow> error + bool \<times> swift" where
  "walkDom sArgs sInst shadowedArgs st [] = Inr (shadowedArgs, st)"
| "walkDom sArgs sInst shadowedArgs st (BB # bbs) =
     bindE (walkInsts sArgs sInst shadowedArgs st (blocks st BB)) (\<lambda>(sh, st1).
       walkDom sArgs sInst sh st1 bbs)"

definition walkRest ::
  "(swift \<Rightarrow> nat \<Rightarrow> error + swift) \<Rightarrow> swift \<Rightarrow> nat list \<Rightarrow> error + swift" where
  "walkRest sInst st bbs = foldE (\<lambda>s BB. foldE sInst (blocks s BB) s) bbs st"

definition newTransformer :: "func \<Rightarrow> swift" where
  "newTransformer F =
     \<lparr>fname = fname F, fargs = fargs F, insts = insts F, blocks = blocks F,
      layout = layout F, nextInst = nextInst F, nextBlock = nextBlock F,
      vsm = Map.empty, origs = [], phis = [], tocheck = [], errs = []\<rparr>"


section \<open>The FP-only hardener (avxfloatswift.cpp)\<close>

record fp_flags =
  fp_NoCheckOnAll :: bool
  fp_NoCheckOnBranch :: bool
  fp_NoCheckOnStore :: bool
  fp_NoCheckOnAtomic :: bool
  fp_NoCheckOnCall :: bool

definition fp_getSimdNum :: "ty \<Rightarrow> nat" where
  "fp_getSimdNum t = (case t of DoubleTy \<Rightarrow> 4 | FloatTy \<Rightarrow> 8 | _ \<Rightarrow> 0)"

definition fp_getSimdType :: "ty \<Rightarrow> ty option" where
  "fp_getSimdType t =
     (let simdnum = fp_getSimdNum t in if simdnum = 0 then None else Some (VectorTy t simdnum))"

definition fp_isSimdType :: "ty \<Rightarrow> bool" where
  "fp_isSimdType t = (case t of VectorTy e n \<Rightarrow> n = fp_getSimdNum t | _ \<Rightarrow> False)"

definition fp_createSimdValue ::
  "'a func_scheme \<Rightarrow> ipoint \<Rightarrow> val \<Rightarrow> error + 'a func_scheme \<times> val" where
  "fp_createSimdValue f ip v =
     bindE (need (fp_getSimdType (typeOf f v))) (\<lambda>t.
       Inr (insertLanes f ip (VConst (CUndef t)) v [0..<fp_getSimdNum (typeOf f v)]))"

definition fp_getSimd :: "swift \<Rightarrow> val option \<Rightarrow> nat \<Rightarrow> error + val option" where
  "fp_getSimd st v I =
     (case v of
        None \<Rightarrow> Inr None
      | Some x \<Rightarrow>
          if fp_isSimdType (typeOf st x) then Inr (Some x)
          else if isOpaque st x then Inr None
          else if typeOf st x = IntegerTy 1 then Inr (vsm st x)
          else if typeOf st x \<noteq> FloatTy \<and> typeOf st x \<noteq> DoubleTy then Inr None
          else (case x of
                  VConst c \<Rightarrow> Inr (Some (VConst (CSplat (fp_getSimdNum (constTy c)) c)))
                | _ \<Rightarrow>
                    (case vsm st x of
                       None \<Rightarrow> Inl NoSimdVersion
                     | Some s \<Rightarrow> Inr (Some s))))"

definition fp_extractSimdOpAndSubstitute ::
  "swift \<Rightarrow> ipoint \<Rightarrow> nat \<Rightarrow> nat \<Rightarrow> error + swift" where
  "fp_extractSimdOpAndSubstitute st ip I idxOp =
     bindE (getOperand st I idxOp) (\<lambda>oper.
     bindE (fp_getSimd st (Some oper) I) (\<lambda>simdOp.
       case simdOp of
         None \<Rightarrow> Inr st
       | Some s \<Rightarrow>
           (let st1 = st\<lparr>tocheck := tocheck st @ [(I, asInstruction s, idxOp)]\<rparr>
            in bindE (CreateExtractElement st1 ip s 0) (\<lambda>(st2, newOp).
                 Inr (setOperand st2 I idxOp newOp)))))"

definition fp_splatAfter :: "swift \<Rightarrow> ipoint \<Rightarrow> nat \<Rightarrow> error + swift" where
  "fp_splatAfter st ipA I =
     bindE (fp_createSimdValue st ipA (VInst I)) (\<lambda>(st1, s). simds_add st1 (VInst I) s)"

definition fp_simdInst_Br :: "swift \<Rightarrow> ipoint \<Rightarrow> nat \<Rightarrow> instr \<Rightarrow> error + swift" where
  "fp_simdInst_Br st ipB I BI =
     (if isUnconditional BI then Inr st
      else bindE (getOperand st I 0) (\<lambda>cond.
        if isConstant cond then Inr st
        else bindE (fp_getSimd st (Some cond) I) (\<lambda>ac.
          case ac of
            None \<Rightarrow> Inr st
          | Some avxcond0 \<Rightarrow>
              (case CreateCast st ipB BitCast avxcond0 (VectorTy (IntegerTy 64) 4) [] of
                 (st0, avxcond) \<Rightarrow>
                   (case avxcond of
                      VInst s \<Rightarrow>
                        (let st1 = st0\<lparr>tocheck := tocheck st0 @ [(I, Some s, 0)]\<rparr>
                         in case CreateCall st1 ipB ''llvm.x86.avx.ptestz.256''
                                   [VInst s, getSimdAllOnes] (IntegerTy 32) of
                              (st2, res) \<Rightarrow>
                                (case CreateCmp st2 ipB (ICmp ''eq'') res (VConst (CInt 32 0)) of
                                   (st3, newcond) \<Rightarrow> setCondition st3 I newcond))
                    | _ \<Rightarrow> Inl (HostAssert ''cast<Instruction> of a non-instruction''))))))"

definition getScalarType :: "ty \<Rightarrow> ty" where
  "getScalarType t = (case t of VectorTy e n \<Rightarrow> e | _ \<Rightarrow> t)"

text \<open>
  The corner case of the binary operators: a shadow predicate (lanes of i64) that feeds an
  integer operator is replaced by its lane 0, truncated to one bit.
\<close>

definition fp_scalarisePredicate ::
  "swift \<Rightarrow> ipoint \<Rightarrow> nat \<Rightarrow> nat \<Rightarrow> val option \<Rightarrow> error + swift \<times> bool" where
  "fp_scalarisePredicate st ipB I k simdOp =
     (case simdOp of
        None \<Rightarrow> Inr (st, False)
      | Some s \<Rightarrow>
          if getScalarType (typeOf st s) = IntegerTy 64
          then bindE (CreateExtractElement st ipB s 0) (\<lambda>(st1, e).
                 case CreateCast st1 ipB Trunc e (IntegerTy 1) [] of
                   (st2, t) \<Rightarrow> Inr (setOperand st2 I k t, True))
          else Inr (st, False))"

definition fp_simdInst_BinaryOp ::
  "swift \<Rightarrow> ipoint \<Rightarrow> ipoint \<Rightarrow> nat \<Rightarrow> instr \<Rightarrow> error + swift" where
  "fp_simdInst_BinaryOp st ipB ipA I BO =
     bindE (getOperand st I 0) (\<lambda>op0.
     bindE (getOperand st I 1) (\<lambda>op1.
     bindE (fp_getSimd st (Some op0) I) (\<lambda>simdOp0.
     bindE (fp_getSimd st (Some op1) I) (\<lambda>simdOp1.
     bindE (fp_scalarisePredicate st ipB I 0 simdOp0) (\<lambda>(st1, special0).
     bindE (fp_scalarisePredicate st1 ipB I 1 simdOp1) (\<lambda>(st2, special1).
       if special0 \<or> special1 then Inr st2
       else (case (simdOp0, simdOp1) of
               (Some s0, Some s1) \<Rightarrow>
                 replaceOriginal st2 ipA I
                   (mkInst (opc BO) (typeOf st2 s0) [s0, s1] (iname BO @ SIMD_SUFFIX))
             | _ \<Rightarrow> Inr st2)))))))"

definition fp_simdInst_FCmp :: "swift \<Rightarrow> ipoint \<Rightarrow> nat \<Rightarrow> instr \<Rightarrow> error + swift" where
  "fp_simdInst_FCmp st ipB I CI =
     bindE (getOperand st I 0) (\<lambda>op0.
     bindE (getOperand st I 1) (\<lambda>op1.
     bindE (fp_getSimd st (Some op0) I) (\<lambda>s0.
     bindE (fp_getSimd st (Some op1) I) (\<lambda>s1.
     bindE (need s0) (\<lambda>simdOp0.
     bindE (need s1) (\<lambda>simdOp1.
       case CreateCmp st ipB (opc CI) simdOp0 simdOp1 of
         (st1, cmp1) \<Rightarrow>
           bindE (getVectorNumElements (typeOf st1 cmp1)) (\<lambda>simdNum.
             case CreateCast st1 ipB SExt cmp1
                    (VectorTy (IntegerTy (256 div simdNum)) simdNum) [] of
               (st2, cmp2) \<Rightarrow>
                 (case CreateCast st2 ipB BitCast cmp2 (VectorTy (IntegerTy 64) 4) [] of
                    (st3, cmp3) \<Rightarrow>
                      bindE (simds_add st3 (VInst I) cmp3) (\<lambda>st4.
                        Inr (st4\<lparr>origs := origs st4 @ [I]\<rparr>))))))))))"

definition fp_simdInst_Select ::
  "swift \<Rightarrow> ipoint \<Rightarrow> ipoint \<Rightarrow> nat \<Rightarrow> instr \<Rightarrow> error + swift" where
  "fp_simdInst_Select st ipB ipA I SI =
     bindE (getOperand st I 0) (\<lambda>op0.
     bindE (getOperand st I 1) (\<lambda>op1.
     bindE (getOperand st I 2) (\<lambda>op2.
     bindE (fp_getSimd st (Some op0) I) (\<lambda>simdCondition.
     bindE (fp_getSimd st (Some op1) I) (\<lambda>simdTrueValue.
     bindE (fp_getSimd st (Some op2) I) (\<lambda>simdFalseValue.
       case (simdTrueValue, simdFalseValue) of
         (Some tv, Some fv) \<Rightarrow>
           bindE (case simdCondition of
                    Some c \<Rightarrow>
                      bindE (getVectorNumElements (typeOf st tv)) (\<lambda>numel.
                        case CreateCast st ipB BitCast c
                               (VectorTy (IntegerTy (256 div numel)) numel) [] of
                          (st1, c1) \<Rightarrow>
                            Inr (CreateCast st1 ipB Trunc c1 (VectorTy (IntegerTy 1) numel) []))
                  | None \<Rightarrow> Inr (st, op0)) (\<lambda>(st2, i1Cond).
             replaceOriginal st2 ipA I
               (mkInst Select (typeOf st2 tv) [i1Cond, tv, fv] (iname SI @ SIMD_SUFFIX)))
       | _ \<Rightarrow> Inr st))))))"

definition fp_simdInst_FPCast ::
  "swift \<Rightarrow> ipoint \<Rightarrow> ipoint \<Rightarrow> nat \<Rightarrow> instr \<Rightarrow> nat list \<Rightarrow> error + swift" where
  "fp_simdInst_FPCast st ipB ipA I CI msk =
     bindE (getOperand st I 0) (\<lambda>op0.
     bindE (fp_getSimd st (Some op0) I) (\<lambda>sv.
     bindE (need sv) (\<lambda>simdValue.
     bindE (CreateShuffleVector st ipB simdValue (VConst (CUndef (typeOf st simdValue))) msk)
       (\<lambda>(st1, shuffled).
     bindE (need (fp_getSimdType (ity CI))) (\<lambda>simdDestTy.
       replaceOriginal st1 ipA I
         (mkInst (opc CI) simdDestTy [shuffled] (iname CI @ SIMD_SUFFIX)))))))"

definition fp_simdInst_Cast ::
  "swift \<Rightarrow> ipoint \<Rightarrow> ipoint \<Rightarrow> nat \<Rightarrow> instr \<Rightarrow> castop \<Rightarrow> error + swift" where
  "fp_simdInst_Cast st ipB ipA I CI co =
     (if co \<in> {AddrSpaceCast, IntToPtr, PtrToInt, SExt, ZExt, Trunc} then Inr st
      else if co = BitCast then
        bindE (getOperand st I 0) (\<lambda>op0.
          if typeOf st op0 = FloatTy \<or> typeOf st op0 = DoubleTy
            then fp_extractSimdOpAndSubstitute st ipB I 0
          else if ity CI = FloatTy \<or> ity CI = DoubleTy then fp_splatAfter st ipA I
          else Inr st)
      else if co = FPExt then fp_simdInst_FPCast st ipB ipA I CI [0..<4]
      else if co = FPTrunc then fp_simdInst_FPCast st ipB ipA I CI (map (\<lambda>i. i mod 4) [0..<8])
      else if co = FPToSI \<or> co = FPToUI then fp_extractSimdOpAndSubstitute st ipB I 0
      else fp_splatAfter st ipA I)"

definition fp_simdInst_PHI :: "swift \<Rightarrow> ipoint \<Rightarrow> nat \<Rightarrow> instr \<Rightarrow> error + swift" where
  "fp_simdInst_PHI st ipA I PI =
     (case fp_getSimdType (ity PI) of
        None \<Rightarrow> Inr st
      | Some simdTy \<Rightarrow>
          replaceOriginal (st\<lparr>phis := phis st @ [I]\<rparr>) ipA I
            (mkInst PHI simdTy [] (iname PI @ SIMD_SUFFIX)))"

definition fp_simdInst_Call ::
  "swift \<Rightarrow> ipoint \<Rightarrow> ipoint \<Rightarrow> nat \<Rightarrow> instr \<Rightarrow> error + swift" where
  "fp_simdInst_Call st ipB ipA I CI =
     (if isIgnoredFunc (getCalledFunction CI) then Inr st
      else (case (if ops CI = [] then VMeta else last (ops CI)) of
              VAsm a \<Rightarrow> (if a = [] then Inr st else Inl InlineAssembly)
            | callee \<Rightarrow>
                bindE (foldE (\<lambda>s idxArgOp. fp_extractSimdOpAndSubstitute s ipB I idxArgOp)
                         [0..<getNumArgOperands CI] st) (\<lambda>st1.
                  if ity CI = FloatTy \<or> ity CI = DoubleTy then fp_splatAfter st1 ipA I
                  else Inr st1)))"

definition fp_simdInst :: "swift \<Rightarrow> nat \<Rightarrow> error + swift" where
  "fp_simdInst st I =
     bindE (getInst st I) (\<lambda>r.
       if opc r = Invoke \<or> opc r = LandingPad \<or> opc r = Resume then Inl CxxExceptions
       else if opc r = ExtractElement \<or> opc r = InsertElement \<or> opc r = ShuffleVector
         then Inl VectorInstruction
       else
         (let ipB = (parent r, Some I);
              ipA = (parent r, nextIn I (blocks st (parent r)))
          in case opc r of
               Ret \<Rightarrow> (if ops r \<noteq> [] then fp_extractSimdOpAndSubstitute st ipB I 0 else Inr st)
             | Switch \<Rightarrow> Inr st
             | Br \<Rightarrow> fp_simdInst_Br st ipB I r
             | IndirectBr \<Rightarrow> Inr st
             | Unreachable \<Rightarrow> Inr st
             | BinaryOp bo \<Rightarrow> fp_simdInst_BinaryOp st ipB ipA I r
             | ICmp p \<Rightarrow> Inr st
             | FCmp p \<Rightarrow> fp_simdInst_FCmp st ipB I r
             | Select \<Rightarrow> fp_simdInst_Select st ipB ipA I r
             | GetElementPtr ib \<Rightarrow> Inr st
             | Cast co \<Rightarrow> fp_simdInst_Cast st ipB ipA I r co
             | PHI \<Rightarrow> fp_simdInst_PHI st ipA I r
             | Alloca \<Rightarrow> Inr st
             | Load \<Rightarrow>
                 (if ity r \<noteq> FloatTy \<and> ity r \<noteq> DoubleTy then Inr st
                  else fp_splatAfter st ipA I)
             | Store \<Rightarrow> fp_extractSimdOpAndSubstitute st ipB I 0
             | AtomicCmpXchg \<Rightarrow> Inl CmpXchgUnsupported
             | AtomicRMW \<Rightarrow>
                 (if ity r \<noteq> FloatTy \<and> ity r \<noteq> DoubleTy then Inr st
                  else bindE (fp_extractSimdOpAndSubstitute st ipB I 1) (\<lambda>st1.
                         fp_splatAfter st1 ipA I))
             | ExtractValue \<Rightarrow> Inr st
             | InsertValue \<Rightarrow> Inr st
             | Call \<Rightarrow> fp_simdInst_Call st ipB ipA I r
             | VAArg \<Rightarrow> Inr st
             | Fence \<Rightarrow> Inr st
             | _ \<Rightarrow> Inl UnknownInstruction))"

definition fp_simdArgs :: "swift \<Rightarrow> nat \<Rightarrow> error + swift" where
  "fp_simdArgs st firstI =
     bindE (getInst st firstI) (\<lambda>r.
       foldE (\<lambda>s k.
                if typeOf s (VArg k) = FloatTy \<or> typeOf s (VArg k) = DoubleTy
                then bindE (fp_createSimdValue s (parent r, Some firstI) (VArg k))
                       (\<lambda>(s1, simdarg). simds_add s1 (VArg k) simdarg)
                else Inr s)
             [0..<length (fargs st)] st)"

definition fp_rewirePhi :: "swift \<Rightarrow> nat \<Rightarrow> error + swift" where
  "fp_rewirePhi st PI =
     bindE (fp_getSimd st (Some (VInst PI)) PI) (\<lambda>sp.
       case sp of
         Some (VInst newPI) \<Rightarrow>
           (if opcOf st newPI = Some PHI
            then bindE (getInst st PI) (\<lambda>r.
                   foldE (\<lambda>s BB.
                            bindE (getInst s PI) (\<lambda>r1.
                            bindE (getIncomingValueForBlock r1 BB) (\<lambda>v.
                            bindE (fp_getSimd s (Some v) PI) (\<lambda>simdIncomingValue.
                              case simdIncomingValue of
                                None \<Rightarrow> Inr s
                              | Some x \<Rightarrow> Inr (addIncoming s newPI x BB)))))
                         (inblocks r) st)
            else Inl NoSimdPhi)
       | _ \<Rightarrow> Inl NoSimdPhi)"

definition fp_rewirePhis :: "swift \<Rightarrow> error + swift" where
  "fp_rewirePhis st = foldE fp_rewirePhi (phis st) st"

definition fp_insertCheck_other ::
  "fp_flags \<Rightarrow> swift \<Rightarrow> nat \<Rightarrow> nat option \<Rightarrow> nat \<Rightarrow> error + swift" where
  "fp_insertCheck_other fl st userI I opIdx =
     (case I of
        None \<Rightarrow> Inr st
      | Some i \<Rightarrow>
          bindE (getInst st userI) (\<lambda>u.
            if fp_NoCheckOnStore fl \<and> opc u = Store then Inr st
            else if fp_NoCheckOnAtomic fl \<and> (opc u = AtomicCmpXchg \<or> opc u = AtomicRMW)
              then Inr st
            else if fp_NoCheckOnCall fl \<and> opc u = Call then Inr st
            else
              (let t = typeOf st (VInst i) in
               bindE (getVectorElementType t) (\<lambda>e.
               bindE (if e = DoubleTy then Inr ''SIMDSWIFT_check_double''
                      else if e = FloatTy then Inr ''SIMDSWIFT_check_float''
                      else Inl (CheckIllegalType t)) (\<lambda>h.
                 case CreateCall st (parent u, Some userI) h [VInst i] t of
                   (st1, newVecOp) \<Rightarrow>
                     bindE (CreateExtractElement st1 (parent u, Some userI) newVecOp 0)
                       (\<lambda>(st2, newOp).
                          bindE (getOperand st2 userI opIdx) (\<lambda>old.
                            Inr (setOperand st2 userI opIdx newOp))))))))"

definition fp_insertCheck ::
  "fp_flags \<Rightarrow> swift \<Rightarrow> nat \<times> nat option \<times> nat \<Rightarrow> error + swift" where
  "fp_insertCheck fl st entry =
     (case entry of
        (userI, I, opIdx) \<Rightarrow>
          bindE (getInst st userI) (\<lambda>u.
            if opc u = Br
            then (if fp_NoCheckOnBranch fl then Inr st else insertCheck_Br st userI I)
            else fp_insertCheck_other fl st userI I opIdx))"

definition fp_insertChecks :: "fp_flags \<Rightarrow> swift \<Rightarrow> error + swift" where
  "fp_insertChecks fl st =
     (if fp_NoCheckOnAll fl then Inr st else foldE (fp_insertCheck fl) (rev (tocheck st)) st)"

definition fp_runOnFunction :: "fp_flags \<Rightarrow> nat list \<Rightarrow> func \<Rightarrow> error + swift" where
  "fp_runOnFunction fl domOrder F =
     (if isIgnoredFunc (Some (fname F)) then Inr (newTransformer F)
      else
        bindE (walkDom fp_simdArgs fp_simdInst False (newTransformer F) domOrder) (\<lambda>(sh, st1).
        bindE (walkRest fp_simdInst st1 (filter (\<lambda>BB. BB \<notin> set domOrder) (layout st1)))
          (\<lambda>st2.
        bindE (fp_rewirePhis st2) (\<lambda>st3.
        bindE (fp_insertChecks fl st3) (\<lambda>st4.
          Inr (removeOriginalInsts st4))))))"

section \<open>The native-cost variant (slownative.cpp)\<close>

definition sn_isIgnoredFunc :: "string \<Rightarrow> bool" where
  "sn_isIgnoredFunc fn =
     (startswith fn ''llvm.'' \<or> startswith fn ''SIMDSWIFT'' \<or> fn \<in> set ignored)"

definition dummy_extract :: string where
  "dummy_extract = ''SIMDSWIFT_dummy_extract''"

definition dummy_broadcast :: string where
  "dummy_broadcast = ''SIMDSWIFT_dummy_broadcast''"

definition dummy_ptest :: string where
  "dummy_ptest = ''SIMDSWIFT_dummy_ptest''"

text \<open>The loops of the atomics: one marker before \<open>I\<close> for every operand that is not a constant.\<close>

definition sn_extractOperands :: "func \<Rightarrow> ipoint \<Rightarrow> nat \<Rightarrow> nat list \<Rightarrow> error + func" where
  "sn_extractOperands f ipB I ks =
     foldE (\<lambda>g k. bindE (getOperand g I k) (\<lambda>v.
                     if \<not> isConstant v then Inr (fst (CreateCall g ipB dummy_extract [] VoidTy))
                     else Inr g))
           ks f"

definition sn_simdInst :: "func \<Rightarrow> nat \<Rightarrow> error + func" where
  "sn_simdInst f I =
     bindE (getInst f I) (\<lambda>r.
       let ipB = (parent r, Some I);
           ipA = (parent r, nextIn I (blocks f (parent r)))
       in if opc r = Br then
            (if isUnconditional r then Inr f
             else bindE (getOperand f I 0) (\<lambda>cond.
                    if isConstant cond then Inr f
                    else Inr (fst (CreateCall f ipB dummy_ptest [] VoidTy))))
          else if opc r = Load then
            bindE (sn_extractOperands f ipB I [0]) (\<lambda>f1.
              Inr (fst (CreateCall f1 ipA dummy_broadcast [] VoidTy)))
          else if opc r = Store then sn_extractOperands f ipB I [1, 0]
          else if opc r = AtomicCmpXchg then
            bindE (sn_extractOperands f ipB I [0..<3]) (\<lambda>f1.
              Inr (fst (CreateCall f1 ipA dummy_broadcast [] VoidTy)))
          else if opc r = AtomicRMW then
            bindE (sn_extractOperands f ipB I [0..<2]) (\<lambda>f1.
              Inr (fst (CreateCall f1 ipA dummy_broadcast [] VoidTy)))
          else Inr f)"

definition sn_runOnFunction :: "nat list \<Rightarrow> func \<Rightarrow> error + func" where
  "sn_runOnFunction domOrder F =
     (if sn_isIgnoredFunc (fname F) then Inr F
      else
        bindE (foldE (\<lambda>g BB. foldE sn_simdInst (blocks g BB) g) domOrder F) (\<lambda>F1.
          foldE (\<lambda>g BB. foldE sn_simdInst (blocks g BB) g)
                (filter (\<lambda>BB. BB \<notin> set domOrder) (layout F1)) F1))"

section \<open>The command-line options each pass declares\<close>

definition avxswift_options :: "string list" where
  "avxswift_options = [''no-check-all'', ''no-check-branch'', ''no-check-load'',
                       ''no-check-store'', ''no-check-atomic'', ''no-check-call'']"

definition avxfloatswift_options :: "string list" where
  "avxfloatswift_options = [''no-check-all'', ''no-check-branch'', ''no-check-store'',
                            ''no-check-atomic'', ''no-check-call'']"

definition slownative_options :: "string list" where
  "slownative_options = []"

section \<open>Notions for the statements\<close>

text \<open>
  A function is well-formed when the instruction numbers from \<open>nextInst\<close> on are unused and
  the blocks list only instructions below it. \<open>phisOf f succs\<close> are the leading \<phi>-nodes of
  the blocks \<open>succs\<close>; \<open>hasIncoming f b j\<close> says that \<phi>-node \<open>j\<close> has an incoming value for
  block \<open>b\<close>; \<open>withCheckEdges ob c k J\<close> is \<phi>-node \<open>J\<close> with \<open>k\<close> more incoming edges from
  block \<open>c\<close>, each binding the value \<open>J\<close> has for block \<open>ob\<close>.
\<close>

definition wfFunc :: "'a func_scheme \<Rightarrow> bool" where
  "wfFunc f \<longleftrightarrow> (\<forall>j. nextInst f \<le> j \<longrightarrow> insts f j = None) \<and>
                (\<forall>b. \<forall>x\<in>set (blocks f b). x < nextInst f)"




definition callInst :: "string \<Rightarrow> val list \<Rightarrow> ty \<Rightarrow> nat \<Rightarrow> instr" where
  "callInst callee args rt b = (mkInst Call rt (args @ [VConst (CFunction callee)]) [])\<lparr>parent := b\<rparr>"


subsection \<open>The check queue\<close>


definition insMany :: "nat list \<Rightarrow> nat \<Rightarrow> nat list \<Rightarrow> nat list" where
  "insMany news x xs =
     (if x \<in> set xs then takeWhile (\<lambda>y. y \<noteq> x) xs @ news @ dropWhile (\<lambda>y. y \<noteq> x) xs
      else xs @ news)"


text \<open>
  What one iteration of the check loop does to the function. \<open>otherStep st st' x r\<close>: the
  check of an operand of the non-branch instruction \<open>x\<close>, whose record is \<open>r\<close>, takes \<open>st\<close> to
  \<open>st'\<close>: new instructions, none of them a \<phi>-node or a branch, are inserted before \<open>x\<close> in
  its block, operands of \<open>x\<close> are replaced, and nothing else changes.
  \<open>brStep st st' userI u t e pre i\<close>: the check of the conditional branch \<open>userI\<close>, whose
  record is \<open>u\<close>, whose successors are \<open>t\<close> and \<open>e\<close>, which ends the block \<open>pre @ [userI]\<close>
  and whose shadow predicate is \<open>i\<close>, takes \<open>st\<close> to \<open>st'\<close>; every field of \<open>st'\<close> is given.
\<close>

definition otherStep :: "swift \<Rightarrow> swift \<Rightarrow> nat \<Rightarrow> instr \<Rightarrow> bool" where
  "otherStep st st' x r \<longleftrightarrow>
     nextInst st \<le> nextInst st' \<and> nextBlock st' = nextBlock st \<and> layout st' = layout st \<and>
     fargs st' = fargs st \<and> func.more st' = func.more st \<and>
     blocks st' = (blocks st)(parent r :=
                     insMany [nextInst st ..< nextInst st'] x (blocks st (parent r))) \<and>
     (\<exists>ops'. length ops' = length (ops r) \<and>
             (getCalledFunction r = None \<longrightarrow> getCalledFunction (r\<lparr>ops := ops'\<rparr>) = None) \<and>
             insts st' x = Some (r\<lparr>ops := ops'\<rparr>)) \<and>
     (\<forall>j. j \<noteq> x \<longrightarrow> j < nextInst st \<or> nextInst st' \<le> j \<longrightarrow> insts st' j = insts st j) \<and>
     (\<forall>j. nextInst st \<le> j \<and> j < nextInst st' \<longrightarrow>
          (\<exists>J. insts st' j = Some J \<and> opc J \<noteq> PHI \<and> opc J \<noteq> Br \<and> parent J = parent r))"







text \<open>
  The invariants of the check loop. \<open>stepFrame N st st' x\<close>: what an iteration on the queued
  instruction \<open>x\<close> leaves alone. \<open>tracked s0 st es\<close>: the entries \<open>es\<close> still queued are
  instructions of \<open>s0\<close>, and a branch among them is as it was in \<open>s0\<close>. \<open>doneOK s0 st ds\<close>:
  every branch among the entries \<open>ds\<close> already visited has its check.
\<close>

definition stepFrame :: "nat \<Rightarrow> swift \<Rightarrow> swift \<Rightarrow> nat \<Rightarrow> bool" where
  "stepFrame N st st' x \<longleftrightarrow>
     nextInst st \<le> nextInst st' \<and> nextBlock st \<le> nextBlock st' \<and>
     (\<forall>j. j < nextInst st \<and> j \<noteq> x \<and> \<not> isPHI st j \<longrightarrow> insts st' j = insts st j) \<and>
     (\<forall>b. b < nextBlock st \<and> x \<notin> set (blocks st b) \<longrightarrow> blocks st' b = blocks st b) \<and>
     (\<forall>b pre suf. b < nextBlock st \<and> blocks st b = pre @ suf \<and> suf \<noteq> [] \<and> x \<notin> set suf \<longrightarrow>
        (\<exists>pre'. blocks st' b = pre' @ suf \<and>
                filter (\<lambda>j. j < N) pre' = filter (\<lambda>j. j < N) pre))"



subsection \<open>The pass on its own output\<close>




subsection \<open>The markers of the native-cost variant\<close>

text \<open>
  What \<^verbatim>\<open>simdInst\<close> of slownative.cpp puts around an instruction \<open>r\<close>: the callees of the
  marker calls before it (\<open>sn_before\<close>) and after it (\<open>sn_after\<close>). \<open>sn_memIndices\<close> are
  the operands of a memory instruction that the source inspects, \<open>sn_arity\<close> the number of
  operands that the source reads.
\<close>

definition sn_memIndices :: "instr \<Rightarrow> nat list" where
  "sn_memIndices r =
     (if opc r = Load then [0]
      else if opc r = Store then [1, 0]
      else if opc r = AtomicCmpXchg then [0..<3]
      else if opc r = AtomicRMW then [0..<2]
      else [])"

definition sn_before :: "instr \<Rightarrow> string list" where
  "sn_before r =
     (if opc r = Br
      then (if \<not> isUnconditional r \<and> \<not> isConstant (ops r ! 0) then [dummy_ptest] else [])
      else replicate (length (filter (\<lambda>k. \<not> isConstant (ops r ! k)) (sn_memIndices r)))
             dummy_extract)"

definition sn_after :: "instr \<Rightarrow> string list" where
  "sn_after r =
     (if opc r = Load \<or> opc r = AtomicCmpXchg \<or> opc r = AtomicRMW then [dummy_broadcast]
      else [])"

definition sn_arity :: "instr \<Rightarrow> nat" where
  "sn_arity r =
     (if opc r = Br then 1
      else if opc r = Load then 1
      else if opc r = Store then 2
      else if opc r = AtomicCmpXchg then 3
      else if opc r = AtomicRMW then 2
      else 0)"

text \<open>
  A block as a list of items: an instruction that the function had before the pass, by its
  number, or a new instruction, by its record. \<open>sn_view N g b\<close> is block \<open>b\<close> of \<open>g\<close> seen
  this way, where the instructions below \<open>N\<close> are the old ones. \<open>sn_marked F b\<close> is block
  \<open>b\<close> of \<open>F\<close> with every instruction between its markers, each marker a call without
  arguments.
\<close>

datatype item = Old nat | New "instr option"

definition sn_items :: "nat \<Rightarrow> func \<Rightarrow> nat list \<Rightarrow> item list" where
  "sn_items N g xs = map (\<lambda>j. if j < N then Old j else New (insts g j)) xs"

definition sn_view :: "nat \<Rightarrow> func \<Rightarrow> nat \<Rightarrow> item list" where
  "sn_view N g b = sn_items N g (blocks g b)"

definition sn_marker :: "nat \<Rightarrow> string \<Rightarrow> item" where
  "sn_marker b nm = New (Some (callInst nm [] VoidTy b))"

definition sn_mark :: "func \<Rightarrow> nat \<Rightarrow> nat \<Rightarrow> item list" where
  "sn_mark F b i =
     (case insts F i of
        None \<Rightarrow> [Old i]
      | Some r \<Rightarrow> map (sn_marker b) (sn_before r) @ [Old i] @ map (sn_marker b) (sn_after r))"

definition sn_marked :: "func \<Rightarrow> nat \<Rightarrow> item list" where
  "sn_marked F b = concat (map (sn_mark F b) (blocks F b))"

text \<open>
  The functions the statement is about: well-formed, no instruction twice in a block, every
  instruction of a block recorded with that block as its parent and with the operands that
  the source reads.
\<close>

definition snWf :: "func \<Rightarrow> bool" where
  "snWf F \<longleftrightarrow> wfFunc F \<and> (\<forall>b. distinct (blocks F b)) \<and>
     (\<forall>b. \<forall>i\<in>set (blocks F b). \<exists>r. insts F i = Some r \<and> parent r = b \<and>
                                      sn_arity r \<le> length (ops r))"

text \<open>
  \<open>sn_stepped g g' b D I rest r\<close>: \<^verbatim>\<open>simdInst\<close> on instruction \<open>I\<close> (record \<open>r\<close>) of the block
  \<open>D @ I # rest\<close> takes \<open>g\<close> to \<open>g'\<close>. \<open>sn_inv F g V\<close>: the invariant of the two block loops,
  \<open>V\<close> the blocks visited.
\<close>

definition sn_stepped :: "func \<Rightarrow> func \<Rightarrow> nat \<Rightarrow> nat list \<Rightarrow> nat \<Rightarrow> nat list \<Rightarrow> instr \<Rightarrow> bool" where
  "sn_stepped g g' b D I rest r \<longleftrightarrow>
     blocks g' = (blocks g)(b :=
        D @ [nextInst g ..< nextInst g + length (sn_before r)] @ I #
        [nextInst g + length (sn_before r) ..<
           nextInst g + length (sn_before r) + length (sn_after r)] @ rest) \<and>
     nextInst g' = nextInst g + length (sn_before r) + length (sn_after r) \<and>
     (\<forall>j. insts g' j =
        (if nextInst g \<le> j \<and> j < nextInst g + length (sn_before r)
           then Some (callInst (sn_before r ! (j - nextInst g)) [] VoidTy b)
         else if nextInst g + length (sn_before r) \<le> j \<and>
                 j < nextInst g + length (sn_before r) + length (sn_after r)
           then Some (callInst (sn_after r ! (j - nextInst g - length (sn_before r))) [] VoidTy b)
         else insts g j)) \<and>
     layout g' = layout g \<and> nextBlock g' = nextBlock g \<and> fargs g' = fargs g \<and>
     fname g' = fname g"

definition sn_inv :: "func \<Rightarrow> func \<Rightarrow> nat set \<Rightarrow> bool" where
  "sn_inv F g V \<longleftrightarrow>
     wfFunc g \<and> (\<forall>b. distinct (blocks g b)) \<and> nextInst F \<le> nextInst g \<and>
     (\<forall>j<nextInst F. insts g j = insts F j) \<and>
     (\<forall>b. b \<notin> V \<longrightarrow> blocks g b = blocks F b) \<and>
     (\<forall>b\<in>V. sn_view (nextInst F) g b = sn_marked F b) \<and>
     layout g = layout F \<and> nextBlock g = nextBlock F \<and> fargs g = fargs F \<and> fname g = fname F"

section \<open>Example functions\<close>


definition inBlock :: "nat \<Rightarrow> instr \<Rightarrow> instr" where
  "inBlock b I = I\<lparr>parent := b\<rparr>"




definition st0 :: swift where
  "st0 = newTransformer \<lparr>fname = ''f'', fargs = [IntegerTy 32, FloatTy],
     insts = Map.empty, blocks = (\<lambda>b. []), layout = [], nextInst = 0, nextBlock = 0\<rparr>"


text \<open>
  \<open>exConstBr\<close> branches on the constant \<^verbatim>\<open>true\<close>. \<open>exMem\<close> loads from its first argument,
  stores the loaded value back, and branches on its second argument; one successor stores a
  constant.
\<close>

definition exConstBr :: func where
  "exConstBr = \<lparr>fname = ''h'', fargs = [],
     insts = [0 \<mapsto> inBlock 0 (mkInst Br VoidTy [VConst (CInt 1 1), VBlock 1, VBlock 2] []),
              1 \<mapsto> inBlock 1 (mkInst Ret VoidTy [] []),
              2 \<mapsto> inBlock 2 (mkInst Ret VoidTy [] [])],
     blocks = (\<lambda>b. [])(0 := [0], 1 := [1], 2 := [2]),
     layout = [0, 1, 2], nextInst = 3, nextBlock = 3\<rparr>"

definition exMem :: func where
  "exMem = \<lparr>fname = ''m'', fargs = [PointerTy, IntegerTy 1],
     insts = [0 \<mapsto> inBlock 0 (mkInst Load (IntegerTy 64) [VArg 0] []),
              1 \<mapsto> inBlock 0 (mkInst Store VoidTy [VInst 0, VArg 0] []),
              2 \<mapsto> inBlock 0 (mkInst Br VoidTy [VArg 1, VBlock 1, VBlock 2] []),
              3 \<mapsto> inBlock 1 (mkInst Store VoidTy [VConst (CInt 64 7), VArg 0] []),
              4 \<mapsto> inBlock 1 (mkInst Ret VoidTy [] []),
              5 \<mapsto> inBlock 2 (mkInst Ret VoidTy [] [])],
     blocks = (\<lambda>b. [])(0 := [0, 1, 2], 1 := [3, 4], 2 := [5]),
     layout = [0, 1, 2], nextInst = 6, nextBlock = 3\<rparr>"

section \<open>Properties\<close>

subsection \<open>Shadow widths\<close>

lemma getSimdNum_errs_other_width:
  assumes "s \<noteq> 1" "s \<noteq> 8" "s \<noteq> 16" "s \<noteq> 32" "s \<noteq> 64"
  shows "getSimdNum_errs (IntegerTy s) = ([IllegalTypeWarning (IntegerTy s)], Inr 4)"
  using assms by (simp add: getSimdNum_errs_def)

text \<open>
  Claim C1. For the primitive scalar types the shadow-type utility of the full hardener
  returns the lane count that makes the shadow 256 bits wide: 32 lanes for i8, 16 for i16,
  8 for i32, 4 for i64 and for pointers, 8 for float, 4 for double, each without a message;
  the predicate type i1 becomes a vector of 4 lanes of i64; an integer of any other width
  gets 4 lanes and one warning that names the type.
\<close>

theorem shadow_type_table:
  "(\<forall>t n. (t, n) \<in> set [(IntegerTy 8, 32), (IntegerTy 16, 16), (IntegerTy 32, 8),
        (IntegerTy 64, 4), (PointerTy, 4), (FloatTy, 8), (DoubleTy, 4)] \<longrightarrow>
      getSimdNum_errs t = ([], Inr n) \<and>
      getSimdType t = Inr (VectorTy t n) \<and>
      vectorBits (VectorTy t n) = 256) \<and>
   getSimdNum_errs (IntegerTy 1) = ([], Inr 4) \<and>
   getSimdType (IntegerTy 1) = Inr (VectorTy (IntegerTy 64) 4) \<and>
   vectorBits (VectorTy (IntegerTy 64) 4) = 256 \<and>
   (\<forall>s. s \<notin> {1, 8, 16, 32, 64} \<longrightarrow>
      getSimdNum_errs (IntegerTy s) = ([IllegalTypeWarning (IntegerTy s)], Inr 4) \<and>
      getSimdType (IntegerTy s) = Inr (VectorTy (IntegerTy s) 4))"
proof -
  have tab: "\<forall>t n. (t, n) \<in> set [(IntegerTy 8, 32), (IntegerTy 16, 16), (IntegerTy 32, 8),
        (IntegerTy 64, 4), (PointerTy, 4), (FloatTy, 8), (DoubleTy, 4)] \<longrightarrow>
      getSimdNum_errs t = ([], Inr n) \<and>
      getSimdType t = Inr (VectorTy t n) \<and>
      vectorBits (VectorTy t n) = 256"
    by (auto simp: getSimdNum_errs_def getSimdType_def getSimdNum_def bindE_def)
  have i1: "getSimdNum_errs (IntegerTy 1) = ([], Inr 4)"
    "getSimdType (IntegerTy 1) = Inr (VectorTy (IntegerTy 64) 4)"
    "vectorBits (VectorTy (IntegerTy 64) 4) = 256"
    by (simp_all add: getSimdNum_errs_def getSimdType_def)
  have other: "\<forall>s. s \<notin> {1, 8, 16, 32, 64} \<longrightarrow>
      getSimdNum_errs (IntegerTy s) = ([IllegalTypeWarning (IntegerTy s)], Inr 4) \<and>
      getSimdType (IntegerTy s) = Inr (VectorTy (IntegerTy s) 4)"
    by (simp add: getSimdNum_errs_other_width getSimdType_def getSimdNum_def bindE_def)
  from tab i1 other show ?thesis by blast
qed

theorem shadow_type_table_witness:
  "getSimdNum_errs (IntegerTy 8) = ([], Inr 32) \<and>
   getSimdType (IntegerTy 8) = Inr (VectorTy (IntegerTy 8) 32) \<and>
   vectorBits (VectorTy (IntegerTy 8) 32) = 256 \<and>
   getSimdNum_errs (IntegerTy 128) = ([IllegalTypeWarning (IntegerTy 128)], Inr 4) \<and>
   getSimdType (IntegerTy 128) = Inr (VectorTy (IntegerTy 128) 4)"
proof -
  have m: "(IntegerTy 8, 32) \<in> set [(IntegerTy 8, 32), (IntegerTy 16, 16), (IntegerTy 32, 8),
        (IntegerTy 64, 4), (PointerTy, 4), (FloatTy, 8), (DoubleTy, 4)]"
    by simp
  have w: "(128::nat) \<notin> {1, 8, 16, 32, 64}" by simp
  from shadow_type_table m w show ?thesis by blast
qed

subsection \<open>Lists and the error monad\<close>

lemma ins_before_app:
  "x \<notin> set pre \<Longrightarrow> ins_before new x (pre @ x # post) = pre @ new # x # post"
  by (induction pre) auto



lemma bindE_Inr: "bindE (Inr x) f = f x"
  by (simp add: bindE_def)



lemma foldE_append: "foldE F (xs @ ys) s = bindE (foldE F xs s) (foldE F ys)"
  by (induction xs arbitrary: s) (auto simp: bindE_def split: sum.splits)

subsection \<open>The loop that renames incoming blocks\<close>

lemma opcOf_setIncomingBlocks: "opcOf (setIncomingBlocks f PN a b) j = opcOf f j"
  by (auto simp: setIncomingBlocks_def opcOf_def split: option.splits)

lemma isPHI_setIncomingBlocks: "isPHI (setIncomingBlocks f PN a b) = isPHI f"
  by (rule ext) (simp add: isPHI_def opcOf_setIncomingBlocks)

lemma setIncomingBlocks_frame:
  "blocks (setIncomingBlocks f PN a b) = blocks f"
  "layout (setIncomingBlocks f PN a b) = layout f"
  "nextInst (setIncomingBlocks f PN a b) = nextInst f"
  "nextBlock (setIncomingBlocks f PN a b) = nextBlock f"
  "fargs (setIncomingBlocks f PN a b) = fargs f"
  "func.more (setIncomingBlocks f PN a b) = func.more f"
  by (auto simp: setIncomingBlocks_def split: option.splits)

lemma setIncomingBlocks_insts:
  "insts (setIncomingBlocks f PN a b) j =
     (if j = PN then map_option (renamed a b) (insts f j) else insts f j)"
  by (auto simp: setIncomingBlocks_def renamed_def split: option.splits)

lemma renamed_idem: "renamed a b (renamed a b J) = renamed a b J"
  by (simp add: renamed_def)

lemma fold_setIncoming_frame:
  "blocks (fold (\<lambda>PN h. setIncomingBlocks h PN a b) ps f) = blocks f"
  "layout (fold (\<lambda>PN h. setIncomingBlocks h PN a b) ps f) = layout f"
  "nextInst (fold (\<lambda>PN h. setIncomingBlocks h PN a b) ps f) = nextInst f"
  "nextBlock (fold (\<lambda>PN h. setIncomingBlocks h PN a b) ps f) = nextBlock f"
  "fargs (fold (\<lambda>PN h. setIncomingBlocks h PN a b) ps f) = fargs f"
  "func.more (fold (\<lambda>PN h. setIncomingBlocks h PN a b) ps f) = func.more f"
  "isPHI (fold (\<lambda>PN h. setIncomingBlocks h PN a b) ps f) = isPHI f"
  by (induction ps arbitrary: f)
     (simp_all add: setIncomingBlocks_frame isPHI_setIncomingBlocks)

lemma map_option_renamed_idem:
  "map_option (renamed a b) (map_option (renamed a b) x) = map_option (renamed a b) x"
  by (cases x) (simp_all add: renamed_idem)

lemma fold_setIncoming_insts:
  "insts (fold (\<lambda>PN h. setIncomingBlocks h PN a b) ps f) j =
     (if j \<in> set ps then map_option (renamed a b) (insts f j) else insts f j)"
proof (induction ps arbitrary: f)
  case Nil
  show ?case by simp
next
  case (Cons p ps)
  have "insts (fold (\<lambda>PN h. setIncomingBlocks h PN a b) (p # ps) f) j =
        insts (fold (\<lambda>PN h. setIncomingBlocks h PN a b) ps (setIncomingBlocks f p a b)) j"
    by simp
  also have "\<dots> = (if j \<in> set ps
                    then map_option (renamed a b) (insts (setIncomingBlocks f p a b) j)
                    else insts (setIncomingBlocks f p a b) j)"
    by (rule Cons.IH)
  also have "\<dots> = (if j \<in> set (p # ps) then map_option (renamed a b) (insts f j)
                    else insts f j)"
  proof (cases "j = p")
    case True
    then show ?thesis by (simp add: setIncomingBlocks_insts map_option_renamed_idem)
  next
    case False
    then show ?thesis by (simp add: setIncomingBlocks_insts)
  qed
  finally show ?case .
qed

lemma leadingPhis_isPHI: "j \<in> set (leadingPhis f S) \<Longrightarrow> isPHI f j"
  by (auto simp: leadingPhis_def dest: set_takeWhileD)

lemma leadingPhis_cong:
  "blocks g = blocks f \<Longrightarrow> isPHI g = isPHI f \<Longrightarrow> leadingPhis g S = leadingPhis f S"
  by (simp add: leadingPhis_def)

lemma renameIncoming_Cons:
  "renameIncoming f (S # succs) a b =
     renameIncoming (fold (\<lambda>PN h. setIncomingBlocks h PN a b) (leadingPhis f S) f) succs a b"
  by (simp add: renameIncoming_def)


lemma renameIncoming_insts:
  "insts (renameIncoming f succs a b) j =
     (if j \<in> (\<Union>S\<in>set succs. set (leadingPhis f S))
      then map_option (renamed a b) (insts f j) else insts f j)"
proof (induction succs arbitrary: f)
  case Nil
  show ?case by (simp add: renameIncoming_def)
next
  case (Cons S succs)
  let ?g = "fold (\<lambda>PN h. setIncomingBlocks h PN a b) (leadingPhis f S) f"
  have lp: "\<And>T. leadingPhis ?g T = leadingPhis f T"
    by (rule leadingPhis_cong) (simp_all add: fold_setIncoming_frame)
  have "insts (renameIncoming f (S # succs) a b) j = insts (renameIncoming ?g succs a b) j"
    by (simp only: renameIncoming_Cons)
  also have "\<dots> = (if j \<in> (\<Union>T\<in>set succs. set (leadingPhis ?g T))
                    then map_option (renamed a b) (insts ?g j) else insts ?g j)"
    by (rule Cons.IH)
  also have "\<dots> = (if j \<in> (\<Union>T\<in>set succs. set (leadingPhis f T))
                    then map_option (renamed a b) (insts ?g j) else insts ?g j)"
    by (simp only: lp)
  also have "\<dots> = (if j \<in> (\<Union>T\<in>set (S # succs). set (leadingPhis f T))
                    then map_option (renamed a b) (insts f j) else insts f j)"
  proof (cases "j \<in> set (leadingPhis f S)")
    case True
    then show ?thesis by (simp add: fold_setIncoming_insts map_option_renamed_idem)
  next
    case False
    then show ?thesis by (simp add: fold_setIncoming_insts)
  qed
  finally show ?case .
qed


subsection \<open>The loop that adds the check block to the \<phi>-nodes\<close>



















subsection \<open>The split-block branch check\<close>

lemma renameIncoming_insts_nonphi:
  "\<not> isPHI f j \<Longrightarrow> insts (renameIncoming f succs a b) j = insts f j"
  using leadingPhis_isPHI [of j f] by (auto simp: renameIncoming_insts)










subsection \<open>The check of an operand of a non-branch instruction\<close>








lemma Insert_nextInst: "nextInst (fst (Insert f ip I)) = Suc (nextInst f)"
  by (simp add: Insert_def Let_def)



lemma otherStep_nextInst: "otherStep st g x r \<Longrightarrow> nextInst st \<le> nextInst g"
  by (simp add: otherStep_def)



subsection \<open>The invariants of the check loop\<close>


































lemma in_block_lt: "wfFunc f \<Longrightarrow> j \<in> set (blocks f b) \<Longrightarrow> j < nextInst f"
  by (auto simp: wfFunc_def)
















lemma stepFrame_refl: "stepFrame N st st x"
  by (auto simp: stepFrame_def)












subsection \<open>Branch checks\<close>









subsection \<open>The shadow map of the FP-only variant\<close>

text \<open>
  Claim C6. In the FP-only variant, \<^verbatim>\<open>getSimd\<close> of a value that is neither float nor
  double nor of shadow vector type returns none, whether or not the value has a recorded
  shadow, except that a non-opaque i1 value returns what the map records for it; it fails
  only for a float or double value that is missing from the map, and does fail for every
  such value that is neither a constant nor opaque.
\<close>

theorem fp_getSimd_non_fp:
  "(typeOf st v \<noteq> FloatTy \<and> typeOf st v \<noteq> DoubleTy \<and> \<not> fp_isSimdType (typeOf st v) \<longrightarrow>
      fp_getSimd st (Some v) I =
        Inr (if typeOf st v = IntegerTy 1 \<and> \<not> isOpaque st v then vsm st v else None)) \<and>
   (\<forall>e. fp_getSimd st (Some v) I = Inl e \<longrightarrow>
      (typeOf st v = FloatTy \<or> typeOf st v = DoubleTy) \<and> vsm st v = None \<and> e = NoSimdVersion) \<and>
   ((typeOf st v = FloatTy \<or> typeOf st v = DoubleTy) \<and> \<not> isConstant v \<and> \<not> isOpaque st v \<and>
      vsm st v = None \<longrightarrow> fp_getSimd st (Some v) I = Inl NoSimdVersion)"
  by (cases v)
     (auto simp: fp_getSimd_def fp_isSimdType_def isConstant_def split: option.splits val.splits)

theorem fp_getSimd_non_fp_witness:
  "typeOf st0 (VArg 0) = IntegerTy 32 \<and> typeOf st0 (VArg 1) = FloatTy \<and>
   vsm st0 (VArg 0) = None \<and> vsm st0 (VArg 1) = None \<and>
   fp_getSimd st0 (Some (VArg 0)) 0 = Inr None \<and>
   fp_getSimd st0 (Some (VArg 1)) 0 = Inl NoSimdVersion"
  using fp_getSimd_non_fp [of st0 "VArg 0" 0] fp_getSimd_non_fp [of st0 "VArg 1" 0]
  by (simp add: st0_def newTransformer_def typeOf_def fp_isSimdType_def isOpaque_def
      isConstant_def)

subsection \<open>Command-line options\<close>

text \<open>
  Claim C8, as stated: every hardening variant declares the same set of options. The
  FP-only variant declares no \<^verbatim>\<open>no-check-load\<close>.
\<close>

theorem options_differ: "set avxfloatswift_options \<noteq> set avxswift_options"
proof
  assume "set avxfloatswift_options = set avxswift_options"
  then have "''no-check-load'' \<in> set avxfloatswift_options"
    by (simp add: avxswift_options_def)
  then show False by (simp add: avxfloatswift_options_def)
qed

text \<open>
  Claim C8, amended. The full hardener declares \<^verbatim>\<open>no-check-all\<close>, \<^verbatim>\<open>no-check-branch\<close>,
  \<^verbatim>\<open>no-check-load\<close>, \<^verbatim>\<open>no-check-store\<close>, \<^verbatim>\<open>no-check-atomic\<close> and \<^verbatim>\<open>no-check-call\<close>; the
  FP-only hardener declares the same options except \<^verbatim>\<open>no-check-load\<close>; the native-cost
  variant declares none.
\<close>

theorem options_of_variants:
  "set avxswift_options = {''no-check-all'', ''no-check-branch'', ''no-check-load'',
                           ''no-check-store'', ''no-check-atomic'', ''no-check-call''} \<and>
   set avxfloatswift_options = set avxswift_options - {''no-check-load''} \<and>
   slownative_options = []"
  by (auto simp: avxswift_options_def avxfloatswift_options_def slownative_options_def)

subsection \<open>The pass on its own output\<close>



















subsection \<open>The native-cost variant\<close>

lemma sn_extractOperands_result:
  assumes "insts f I = Some r" "blocks f (parent r) = pre @ I # post" "I \<notin> set pre"
    "I < nextInst f" "\<forall>k\<in>set ks. k < length (ops r)"
  shows "\<exists>f'. sn_extractOperands f (parent r, Some I) I ks = Inr f' \<and>
     nextInst f' = nextInst f + length (filter (\<lambda>k. \<not> isConstant (ops r ! k)) ks) \<and>
     blocks f' = (blocks f)(parent r :=
        pre @ [nextInst f ..< nextInst f + length (filter (\<lambda>k. \<not> isConstant (ops r ! k)) ks)]
            @ I # post) \<and>
     insts f' = (\<lambda>j. if nextInst f \<le> j \<and>
                         j < nextInst f + length (filter (\<lambda>k. \<not> isConstant (ops r ! k)) ks)
                      then Some (callInst dummy_extract [] VoidTy (parent r))
                      else insts f j) \<and>
     layout f' = layout f \<and> nextBlock f' = nextBlock f \<and> fargs f' = fargs f \<and>
     fname f' = fname f"
  using assms
proof (induction ks arbitrary: f pre)
  case Nil
  then show ?case
    by (auto simp: sn_extractOperands_def fun_eq_iff)
next
  case (Cons k ks)
  let ?c = "length (filter (\<lambda>k. \<not> isConstant (ops r ! k)) ks)"
  have go: "getOperand f I k = Inr (ops r ! k)"
    using Cons.prems by (simp add: getOperand_def getInst_def bindE_def)
  show ?case
  proof (cases "isConstant (ops r ! k)")
    case True
    have step: "sn_extractOperands f (parent r, Some I) I (k # ks) =
                sn_extractOperands f (parent r, Some I) I ks"
      using True by (simp add: sn_extractOperands_def go bindE_def)
    from Cons.IH [of f pre] Cons.prems True show ?thesis
      unfolding step by simp
  next
    case False
    let ?f1 = "fst (CreateCall f (parent r, Some I) dummy_extract [] VoidTy)"
    have step: "sn_extractOperands f (parent r, Some I) I (k # ks) =
                sn_extractOperands ?f1 (parent r, Some I) I ks"
      using False by (simp add: sn_extractOperands_def go bindE_def)
    have f1: "nextInst ?f1 = Suc (nextInst f)" "layout ?f1 = layout f"
      "nextBlock ?f1 = nextBlock f" "fargs ?f1 = fargs f" "fname ?f1 = fname f"
      "blocks ?f1 = (blocks f)(parent r := (pre @ [nextInst f]) @ I # post)"
      "insts ?f1 = (insts f)(nextInst f \<mapsto> callInst dummy_extract [] VoidTy (parent r))"
      using Cons.prems
      by (simp_all add: CreateCall_def Insert_def Let_def callInst_def ins_before_app)
    have p1: "insts ?f1 I = Some r" "blocks ?f1 (parent r) = (pre @ [nextInst f]) @ I # post"
      "I \<notin> set (pre @ [nextInst f])" "I < nextInst ?f1" "\<forall>k\<in>set ks. k < length (ops r)"
      using Cons.prems by (auto simp: f1)
    from Cons.IH [OF p1] obtain f' where
      r: "sn_extractOperands ?f1 (parent r, Some I) I ks = Inr f'" and
      n: "nextInst f' = nextInst ?f1 + ?c" and
      b: "blocks f' = (blocks ?f1)(parent r :=
            (pre @ [nextInst f]) @ [nextInst ?f1 ..< nextInst ?f1 + ?c] @ I # post)" and
      i: "insts f' = (\<lambda>j. if nextInst ?f1 \<le> j \<and> j < nextInst ?f1 + ?c
                          then Some (callInst dummy_extract [] VoidTy (parent r))
                          else insts ?f1 j)" and
      l: "layout f' = layout ?f1" "nextBlock f' = nextBlock ?f1" "fargs f' = fargs ?f1"
         "fname f' = fname ?f1"
      by blast
    have upt: "[nextInst f ..< nextInst f + Suc ?c] =
               nextInst f # [Suc (nextInst f) ..< Suc (nextInst f) + ?c]"
      by (subst upt_conv_Cons) simp_all
    have cnt: "length (filter (\<lambda>k. \<not> isConstant (ops r ! k)) (k # ks)) = Suc ?c"
      using False by simp
    have nb: "nextInst f' = nextInst f + Suc ?c" using n by (simp add: f1)
    have "blocks f' = (blocks f)(parent r :=
            (pre @ [nextInst f]) @ [Suc (nextInst f) ..< Suc (nextInst f) + ?c] @ I # post)"
      using b by (simp only: f1 fun_upd_upd)
    also have "(pre @ [nextInst f]) @ [Suc (nextInst f) ..< Suc (nextInst f) + ?c] @ I # post =
               pre @ [nextInst f ..< nextInst f + Suc ?c] @ I # post"
      by (simp only: upt append_assoc append_Cons append_Nil)
    finally have bb: "blocks f' = (blocks f)(parent r :=
            pre @ [nextInst f ..< nextInst f + Suc ?c] @ I # post)" .
    have ii: "insts f' = (\<lambda>j. if nextInst f \<le> j \<and> j < nextInst f + Suc ?c
                          then Some (callInst dummy_extract [] VoidTy (parent r))
                          else insts f j)"
      by (rule ext) (auto simp: i f1)
    show ?thesis
      unfolding step cnt using r nb bb ii l by (simp only: f1) blast
  qed
qed

lemma nextIn_app:
  "I \<notin> set pre \<Longrightarrow> nextIn I (pre @ I # post) = (case post of [] \<Rightarrow> None | z # zs \<Rightarrow> Some z)"
  by (induction pre) auto

lemma insert_at_next:
  assumes "blocks g b = mid @ post" "\<forall>z\<in>set post. z \<notin> set mid"
  shows "blocks (fst (Insert g (b, case post of [] \<Rightarrow> None | z # zs \<Rightarrow> Some z) J)) =
           (blocks g)(b := mid @ nextInst g # post)"
proof (cases post)
  case Nil
  then show ?thesis using assms by (simp add: Insert_def Let_def)
next
  case (Cons z zs)
  then have "z \<notin> set mid" using assms by simp
  then show ?thesis using assms Cons by (simp add: Insert_def Let_def ins_before_app)
qed

lemma sn_memory_case:
  assumes r: "insts f I = Some r"
    and blk: "blocks f (parent r) = pre @ I # post"
    and dist: "distinct (blocks f (parent r))"
    and wf: "wfFunc f"
    and ks: "\<forall>k\<in>set ks. k < length (ops r)"
  shows "\<exists>f'. bindE (sn_extractOperands f (parent r, Some I) I ks)
                 (\<lambda>f1. Inr (fst (CreateCall f1 (parent r, nextIn I (blocks f (parent r)))
                                    dummy_broadcast [] VoidTy))) = Inr f' \<and>
     blocks f' = (blocks f)(parent r :=
        pre @ [nextInst f ..< nextInst f + length (filter (\<lambda>k. \<not> isConstant (ops r ! k)) ks)]
            @ I # (nextInst f + length (filter (\<lambda>k. \<not> isConstant (ops r ! k)) ks)) # post) \<and>
     (\<forall>j. insts f' j =
        (if nextInst f \<le> j \<and>
            j < nextInst f + length (filter (\<lambda>k. \<not> isConstant (ops r ! k)) ks)
         then Some (callInst dummy_extract [] VoidTy (parent r))
         else if j = nextInst f + length (filter (\<lambda>k. \<not> isConstant (ops r ! k)) ks)
         then Some (callInst dummy_broadcast [] VoidTy (parent r))
         else insts f j)) \<and>
     nextInst f' = Suc (nextInst f + length (filter (\<lambda>k. \<not> isConstant (ops r ! k)) ks)) \<and>
     layout f' = layout f \<and> nextBlock f' = nextBlock f \<and> fargs f' = fargs f \<and>
     fname f' = fname f"
proof -
  let ?n = "nextInst f"
  let ?c = "length (filter (\<lambda>k. \<not> isConstant (ops r ! k)) ks)"
  have ipre: "I \<notin> set pre" and ipost: "I \<notin> set post" and dpp: "set pre \<inter> set post = {}"
    using dist blk by auto
  have lt: "\<forall>x\<in>set (pre @ I # post). x < ?n"
    using wf blk by (auto simp: wfFunc_def dest: spec [of _ "parent r"])
  then have iln: "I < ?n" by simp
  from sn_extractOperands_result [OF r blk ipre iln ks] obtain f1 where
    e: "sn_extractOperands f (parent r, Some I) I ks = Inr f1" and
    n1: "nextInst f1 = ?n + ?c" and
    b1: "blocks f1 = (blocks f)(parent r := pre @ [?n ..< ?n + ?c] @ I # post)" and
    i1: "insts f1 = (\<lambda>j. if ?n \<le> j \<and> j < ?n + ?c
                        then Some (callInst dummy_extract [] VoidTy (parent r))
                        else insts f j)" and
    l1: "layout f1 = layout f" "nextBlock f1 = nextBlock f" "fargs f1 = fargs f"
        "fname f1 = fname f"
    by blast
  have nx: "nextIn I (blocks f (parent r)) = (case post of [] \<Rightarrow> None | z # zs \<Rightarrow> Some z)"
    by (simp add: blk nextIn_app [OF ipre])
  define g where "g = fst (CreateCall f1 (parent r, nextIn I (blocks f (parent r)))
                    dummy_broadcast [] VoidTy)"
  have bm: "blocks f1 (parent r) = (pre @ [?n ..< ?n + ?c] @ [I]) @ post"
    by (simp add: b1)
  have sep: "\<forall>z\<in>set post. z \<notin> set (pre @ [?n ..< ?n + ?c] @ [I])"
    using ipost dpp lt by (fastforce simp: not_le [symmetric])
  have b': "blocks g = (blocks f)(parent r := pre @ [?n ..< ?n + ?c] @ I # (?n + ?c) # post)"
    unfolding g_def CreateCall_def nx
    by (simp only: insert_at_next [OF bm sep] n1 b1 fun_upd_upd append_assoc append_Cons
        append_Nil)
  have rest: "nextInst g = Suc (?n + ?c)" "layout g = layout f" "nextBlock g = nextBlock f"
    "fargs g = fargs f" "fname g = fname f"
    by (simp_all add: g_def CreateCall_def Insert_def Let_def n1 l1)
  have ig: "insts g = (insts f1)(?n + ?c \<mapsto> callInst dummy_broadcast [] VoidTy (parent r))"
    by (simp add: g_def CreateCall_def Insert_def Let_def n1 callInst_def)
  have i': "\<forall>j. insts g j =
        (if ?n \<le> j \<and> j < ?n + ?c then Some (callInst dummy_extract [] VoidTy (parent r))
         else if j = ?n + ?c then Some (callInst dummy_broadcast [] VoidTy (parent r))
         else insts f j)"
    by (auto simp: ig i1)
  have res: "bindE (sn_extractOperands f (parent r, Some I) I ks)
                 (\<lambda>f1. Inr (fst (CreateCall f1 (parent r, nextIn I (blocks f (parent r)))
                                    dummy_broadcast [] VoidTy))) = Inr g"
    by (simp only: e bindE_Inr g_def)
  from res b' i' rest show ?thesis by blast
qed

lemma sn_step_none:
  assumes "sn_before r = []" "sn_after r = []" "blocks g b = D @ I # rest"
  shows "sn_stepped g g b D I rest r"
proof -
  have "(blocks g)(b := D @ I # rest) = blocks g" using assms(3) by auto
  then show ?thesis using assms(1,2) by (auto simp: sn_stepped_def)
qed

lemma sn_step:
  assumes r: "insts g I = Some r" and pb: "parent r = b"
    and blk: "blocks g b = D @ I # rest" and dist: "distinct (blocks g b)"
    and wf: "wfFunc g" and ar: "sn_arity r \<le> length (ops r)"
  shows "\<exists>g'. sn_simdInst g I = Inr g' \<and> sn_stepped g g' b D I rest r"
proof -
  have blk': "blocks g (parent r) = D @ I # rest" using blk pb by simp
  have dist': "distinct (blocks g (parent r))" using dist pb by simp
  have ID: "I \<notin> set D" using dist blk by auto
  have In: "I < nextInst g" using wf blk by (auto simp: wfFunc_def dest!: spec [of _ b])
  consider (br) "opc r = Br" | (ld) "opc r = Load" | (st) "opc r = Store"
    | (cx) "opc r = AtomicCmpXchg" | (rmw) "opc r = AtomicRMW"
    | (other) "opc r \<noteq> Br" "opc r \<noteq> Load" "opc r \<noteq> Store" "opc r \<noteq> AtomicCmpXchg"
        "opc r \<noteq> AtomicRMW"
    by blast
  then show ?thesis
  proof cases
    case br
    have len: "0 < length (ops r)" using ar br by (cases "ops r") (auto simp: sn_arity_def)
    show ?thesis
    proof (cases "\<not> isUnconditional r \<and> \<not> isConstant (ops r ! 0)")
      case True
      have b: "sn_before r = [dummy_ptest]" "sn_after r = []"
        using br True by (simp_all add: sn_before_def sn_after_def)
      let ?g' = "fst (CreateCall g (parent r, Some I) dummy_ptest [] VoidTy)"
      have res: "sn_simdInst g I = Inr ?g'"
        using br True len
        by (simp add: sn_simdInst_def getInst_def r bindE_Inr Let_def getOperand_def)
      have "sn_stepped g ?g' b D I rest r"
        using blk' ID pb
        by (auto simp: sn_stepped_def b CreateCall_def Insert_def Let_def ins_before_app
            callInst_def)
      with res show ?thesis by blast
    next
      case False
      have b: "sn_before r = []" "sn_after r = []"
        using br False by (auto simp: sn_before_def sn_after_def)
      have res: "sn_simdInst g I = Inr g"
        using br False len
        by (auto simp: sn_simdInst_def getInst_def r bindE_Inr Let_def getOperand_def)
      show ?thesis using res sn_step_none [OF b blk] by blast
    qed
  next
    case other
    have b: "sn_before r = []" "sn_after r = []"
      using other by (auto simp: sn_before_def sn_after_def sn_memIndices_def)
    have res: "sn_simdInst g I = Inr g"
      using other by (simp add: sn_simdInst_def getInst_def r bindE_Inr Let_def)
    show ?thesis using res sn_step_none [OF b blk] by blast
  next
    case st
    have ks: "\<forall>k\<in>set [1, 0]. k < length (ops r)" using ar st by (auto simp: sn_arity_def)
    have b: "sn_before r = replicate (length (filter (\<lambda>k. \<not> isConstant (ops r ! k)) [1, 0]))
                              dummy_extract" "sn_after r = []"
      using st by (simp_all add: sn_before_def sn_after_def sn_memIndices_def)
    from sn_extractOperands_result [OF r blk' ID In ks] obtain g' where
      e: "sn_extractOperands g (parent r, Some I) I [1, 0] = Inr g'" and
      n: "nextInst g' = nextInst g + length (filter (\<lambda>k. \<not> isConstant (ops r ! k)) [1, 0])" and
      bl: "blocks g' = (blocks g)(parent r :=
        D @ [nextInst g ..< nextInst g + length (filter (\<lambda>k. \<not> isConstant (ops r ! k)) [1, 0])]
            @ I # rest)" and
      i: "insts g' = (\<lambda>j. if nextInst g \<le> j \<and>
                         j < nextInst g + length (filter (\<lambda>k. \<not> isConstant (ops r ! k)) [1, 0])
                      then Some (callInst dummy_extract [] VoidTy (parent r))
                      else insts g j)" and
      l: "layout g' = layout g" "nextBlock g' = nextBlock g" "fargs g' = fargs g"
         "fname g' = fname g"
      by blast
    have res: "sn_simdInst g I = Inr g'"
      using st e by (simp add: sn_simdInst_def getInst_def r bindE_Inr Let_def)
    have "sn_stepped g g' b D I rest r"
      unfolding sn_stepped_def b using n bl i l pb by (auto simp del: filter.simps)
    with res show ?thesis by blast
  next
    case ld
    have ks: "\<forall>k\<in>set [0]. k < length (ops r)" using ar ld by (auto simp: sn_arity_def)
    have b: "sn_before r = replicate (length (filter (\<lambda>k. \<not> isConstant (ops r ! k)) [0]))
                              dummy_extract" "sn_after r = [dummy_broadcast]"
      using ld by (simp_all add: sn_before_def sn_after_def sn_memIndices_def)
    from sn_memory_case [OF r blk' dist' wf ks] obtain g' where
      e: "bindE (sn_extractOperands g (parent r, Some I) I [0])
                 (\<lambda>f1. Inr (fst (CreateCall f1 (parent r, nextIn I (blocks g (parent r)))
                                    dummy_broadcast [] VoidTy))) = Inr g'" and
      bl: "blocks g' = (blocks g)(parent r :=
        D @ [nextInst g ..< nextInst g + length (filter (\<lambda>k. \<not> isConstant (ops r ! k)) [0])]
            @ I # (nextInst g + length (filter (\<lambda>k. \<not> isConstant (ops r ! k)) [0])) # rest)" and
      i: "\<forall>j. insts g' j =
        (if nextInst g \<le> j \<and>
            j < nextInst g + length (filter (\<lambda>k. \<not> isConstant (ops r ! k)) [0])
         then Some (callInst dummy_extract [] VoidTy (parent r))
         else if j = nextInst g + length (filter (\<lambda>k. \<not> isConstant (ops r ! k)) [0])
         then Some (callInst dummy_broadcast [] VoidTy (parent r))
         else insts g j)" and
      n: "nextInst g' = Suc (nextInst g + length (filter (\<lambda>k. \<not> isConstant (ops r ! k)) [0]))" and
      l: "layout g' = layout g" "nextBlock g' = nextBlock g" "fargs g' = fargs g"
         "fname g' = fname g"
      by blast
    have res: "sn_simdInst g I = Inr g'"
      using ld e by (simp add: sn_simdInst_def getInst_def r bindE_Inr Let_def)
    have "sn_stepped g g' b D I rest r"
      unfolding sn_stepped_def b using n bl i l pb by (auto simp del: filter.simps)
    with res show ?thesis by blast
  next
    case cx
    have ks: "\<forall>k\<in>set [0..<3]. k < length (ops r)" using ar cx by (auto simp: sn_arity_def)
    have b: "sn_before r = replicate (length (filter (\<lambda>k. \<not> isConstant (ops r ! k)) [0..<3]))
                              dummy_extract" "sn_after r = [dummy_broadcast]"
      using cx
      by (simp_all only: sn_before_def sn_after_def sn_memIndices_def opcode.simps if_True
          if_False simp_thms)
    from sn_memory_case [OF r blk' dist' wf ks] obtain g' where
      e: "bindE (sn_extractOperands g (parent r, Some I) I [0..<3])
                 (\<lambda>f1. Inr (fst (CreateCall f1 (parent r, nextIn I (blocks g (parent r)))
                                    dummy_broadcast [] VoidTy))) = Inr g'" and
      bl: "blocks g' = (blocks g)(parent r :=
        D @ [nextInst g ..< nextInst g + length (filter (\<lambda>k. \<not> isConstant (ops r ! k)) [0..<3])]
            @ I # (nextInst g + length (filter (\<lambda>k. \<not> isConstant (ops r ! k)) [0..<3])) # rest)" and
      i: "\<forall>j. insts g' j =
        (if nextInst g \<le> j \<and>
            j < nextInst g + length (filter (\<lambda>k. \<not> isConstant (ops r ! k)) [0..<3])
         then Some (callInst dummy_extract [] VoidTy (parent r))
         else if j = nextInst g + length (filter (\<lambda>k. \<not> isConstant (ops r ! k)) [0..<3])
         then Some (callInst dummy_broadcast [] VoidTy (parent r))
         else insts g j)" and
      n: "nextInst g' = Suc (nextInst g + length (filter (\<lambda>k. \<not> isConstant (ops r ! k)) [0..<3]))" and
      l: "layout g' = layout g" "nextBlock g' = nextBlock g" "fargs g' = fargs g"
         "fname g' = fname g"
      by blast
    have res: "sn_simdInst g I = Inr g'"
      using cx e by (simp add: sn_simdInst_def getInst_def r bindE_Inr Let_def del: upt.simps)
    define c where "c = length (filter (\<lambda>k. \<not> isConstant (ops r ! k)) [0..<3])"
    have "sn_stepped g g' b D I rest r"
      unfolding sn_stepped_def b c_def [symmetric]
      using n [folded c_def] bl [folded c_def] i [folded c_def] l pb by auto
    with res show ?thesis by blast
  next
    case rmw
    have ks: "\<forall>k\<in>set [0..<2]. k < length (ops r)" using ar rmw by (auto simp: sn_arity_def)
    have b: "sn_before r = replicate (length (filter (\<lambda>k. \<not> isConstant (ops r ! k)) [0..<2]))
                              dummy_extract" "sn_after r = [dummy_broadcast]"
      using rmw
      by (simp_all only: sn_before_def sn_after_def sn_memIndices_def opcode.simps if_True
          if_False simp_thms)
    from sn_memory_case [OF r blk' dist' wf ks] obtain g' where
      e: "bindE (sn_extractOperands g (parent r, Some I) I [0..<2])
                 (\<lambda>f1. Inr (fst (CreateCall f1 (parent r, nextIn I (blocks g (parent r)))
                                    dummy_broadcast [] VoidTy))) = Inr g'" and
      bl: "blocks g' = (blocks g)(parent r :=
        D @ [nextInst g ..< nextInst g + length (filter (\<lambda>k. \<not> isConstant (ops r ! k)) [0..<2])]
            @ I # (nextInst g + length (filter (\<lambda>k. \<not> isConstant (ops r ! k)) [0..<2])) # rest)" and
      i: "\<forall>j. insts g' j =
        (if nextInst g \<le> j \<and>
            j < nextInst g + length (filter (\<lambda>k. \<not> isConstant (ops r ! k)) [0..<2])
         then Some (callInst dummy_extract [] VoidTy (parent r))
         else if j = nextInst g + length (filter (\<lambda>k. \<not> isConstant (ops r ! k)) [0..<2])
         then Some (callInst dummy_broadcast [] VoidTy (parent r))
         else insts g j)" and
      n: "nextInst g' = Suc (nextInst g + length (filter (\<lambda>k. \<not> isConstant (ops r ! k)) [0..<2]))" and
      l: "layout g' = layout g" "nextBlock g' = nextBlock g" "fargs g' = fargs g"
         "fname g' = fname g"
      by blast
    have res: "sn_simdInst g I = Inr g'"
      using rmw e by (simp add: sn_simdInst_def getInst_def r bindE_Inr Let_def del: upt.simps)
    define c where "c = length (filter (\<lambda>k. \<not> isConstant (ops r ! k)) [0..<2])"
    have "sn_stepped g g' b D I rest r"
      unfolding sn_stepped_def b c_def [symmetric]
      using n [folded c_def] bl [folded c_def] i [folded c_def] l pb by auto
    with res show ?thesis by blast
  qed
qed

lemma sn_stepped_keeps:
  assumes "sn_stepped g g' b D I rest r"
  shows "nextInst g \<le> nextInst g'" "j < nextInst g \<Longrightarrow> insts g' j = insts g j"
    "layout g' = layout g" "nextBlock g' = nextBlock g" "fargs g' = fargs g" "fname g' = fname g"
  using assms by (simp_all add: sn_stepped_def)

lemma sn_stepped_blocks:
  assumes "sn_stepped g g' b D I rest r"
  shows "blocks g' = (blocks g)(b :=
        (D @ [nextInst g ..< nextInst g + length (sn_before r)] @ I #
        [nextInst g + length (sn_before r) ..<
           nextInst g + length (sn_before r) + length (sn_after r)]) @ rest)"
  using assms by (simp add: sn_stepped_def)

lemma sn_stepped_wf:
  assumes s: "sn_stepped g g' b D I rest r" and wf: "wfFunc g" and blk: "blocks g b = D @ I # rest"
  shows "wfFunc g'"
proof -
  have n: "nextInst g' = nextInst g + length (sn_before r) + length (sn_after r)"
    using s by (simp add: sn_stepped_def)
  have 1: "insts g' j = None" if "nextInst g' \<le> j" for j
    using that s wf n by (simp add: sn_stepped_def wfFunc_def)
  have old: "\<forall>x\<in>set (blocks g c). x < nextInst g" for c
    using wf by (simp add: wfFunc_def)
  have oldb: "\<forall>x\<in>set D \<union> {I} \<union> set rest. x < nextInst g"
    using old [of b] blk by simp
  have 2: "y < nextInst g'" if y: "y \<in> set (blocks g' c)" for y c
  proof (cases "c = b")
    case True
    then have "y \<in> set D \<union> {I} \<union> set rest \<or> y < nextInst g'"
      using y n unfolding sn_stepped_blocks [OF s] by auto
    then show ?thesis
    proof
      assume "y \<in> set D \<union> {I} \<union> set rest"
      then have "y < nextInst g" using oldb by blast
      then show ?thesis using n by simp
    qed
  next
    case False
    then have "y \<in> set (blocks g c)" using y unfolding sn_stepped_blocks [OF s] by simp
    then have "y < nextInst g" using old [of c] by blast
    then show ?thesis using n by simp
  qed
  show ?thesis using 1 2 by (auto simp: wfFunc_def)
qed

lemma sn_stepped_distinct:
  assumes s: "sn_stepped g g' b D I rest r" and wf: "wfFunc g" and blk: "blocks g b = D @ I # rest"
    and d: "distinct (blocks g c)"
  shows "distinct (blocks g' c)"
proof (cases "c = b")
  case True
  have old: "\<And>x. x \<in> set D \<or> x = I \<or> x \<in> set rest \<Longrightarrow> x < nextInst g"
    using wf blk by (auto simp: wfFunc_def dest!: spec [of _ b])
  let ?A = "[nextInst g ..< nextInst g + length (sn_before r)]"
  let ?B = "[nextInst g + length (sn_before r) ..<
               nextInst g + length (sn_before r) + length (sn_after r)]"
  have fresh: "\<And>x. x \<in> set ?A \<or> x \<in> set ?B \<Longrightarrow> nextInst g \<le> x" by auto
  have dd: "distinct D" "distinct rest" "I \<notin> set D" "I \<notin> set rest" "set D \<inter> set rest = {}"
    using d True blk by auto
  have ab: "set ?A \<inter> set ?B = {}" by auto
  have 1: "set D \<inter> set ?A = {}" "set D \<inter> set ?B = {}" "set rest \<inter> set ?A = {}"
    "set rest \<inter> set ?B = {}" "I \<notin> set ?A" "I \<notin> set ?B"
    using old fresh by (fastforce simp: disjoint_iff)+
  have "distinct (D @ ?A @ I # ?B @ rest)"
    using dd ab 1 by (simp add: disjoint_iff) blast
  then show ?thesis using True unfolding sn_stepped_blocks [OF s] by simp
next
  case False
  then show ?thesis using d unfolding sn_stepped_blocks [OF s] by simp
qed

lemma map_upt_nth:
  assumes "\<And>k. k < length xs \<Longrightarrow> f (n + k) = g (xs ! k)"
  shows "map f [n ..< n + length xs] = map g xs"
proof (rule nth_equalityI)
  show "length (map f [n ..< n + length xs]) = length (map g xs)" by simp
next
  fix i assume "i < length (map f [n ..< n + length xs])"
  then have i: "i < length xs" by simp
  then show "map f [n ..< n + length xs] ! i = map g xs ! i"
    using assms [OF i] by simp
qed

lemma sn_stepped_items:
  assumes s: "sn_stepped g g' b D I rest r" and N: "N \<le> nextInst g" and I: "I < N"
    and r: "insts g I = Some r"
  shows "sn_items N g' ([nextInst g ..< nextInst g + length (sn_before r)] @ I #
          [nextInst g + length (sn_before r) ..<
             nextInst g + length (sn_before r) + length (sn_after r)]) = sn_mark g b I"
proof -
  let ?n = "nextInst g" and ?p = "length (sn_before r)" and ?q = "length (sn_after r)"
  have i: "\<forall>j. insts g' j =
        (if ?n \<le> j \<and> j < ?n + ?p
           then Some (callInst (sn_before r ! (j - ?n)) [] VoidTy b)
         else if ?n + ?p \<le> j \<and> j < ?n + ?p + ?q
           then Some (callInst (sn_after r ! (j - ?n - ?p)) [] VoidTy b)
         else insts g j)"
    using s by (simp add: sn_stepped_def)
  have 1: "map (\<lambda>j. if j < N then Old j else New (insts g' j)) [?n ..< ?n + ?p]
             = map (sn_marker b) (sn_before r)"
    by (rule map_upt_nth) (use N i in \<open>simp add: sn_marker_def\<close>)
  have 2: "map (\<lambda>j. if j < N then Old j else New (insts g' j)) [?n + ?p ..< ?n + ?p + ?q]
             = map (sn_marker b) (sn_after r)"
    by (rule map_upt_nth) (use N i in \<open>simp add: sn_marker_def\<close>)
  show ?thesis
    using 1 2 I r by (simp add: sn_items_def sn_mark_def)
qed

lemma sn_items_cong:
  assumes "\<forall>j\<in>set xs. insts g' j = insts g j"
  shows "sn_items N g' xs = sn_items N g xs"
  using assms by (simp add: sn_items_def)

lemma sn_mark_cong: "insts g' i = insts g i \<Longrightarrow> sn_mark g' b i = sn_mark g b i"
  by (simp add: sn_mark_def)

lemma sn_block:
  assumes "wfFunc g" "distinct (blocks g b)" "blocks g b = D @ todo" "N \<le> nextInst g"
    "\<forall>i\<in>set todo. i < N \<and> (\<exists>r. insts g i = Some r \<and> parent r = b \<and>
                                  sn_arity r \<le> length (ops r))"
  shows "\<exists>g' E. foldE sn_simdInst todo g = Inr g' \<and> blocks g' = (blocks g)(b := D @ E) \<and>
           sn_items N g' E = concat (map (sn_mark g b) todo) \<and>
           (\<forall>j<nextInst g. insts g' j = insts g j) \<and> nextInst g \<le> nextInst g' \<and>
           wfFunc g' \<and> distinct (blocks g' b) \<and> layout g' = layout g \<and>
           nextBlock g' = nextBlock g \<and> fargs g' = fargs g \<and> fname g' = fname g"
  using assms
proof (induction todo arbitrary: g D)
  case Nil
  have "(blocks g)(b := D @ []) = blocks g" using Nil.prems(3) by auto
  then show ?case using Nil.prems
    by (intro exI [of _ g] exI [of _ "[]"]) (simp add: sn_items_def)
next
  case (Cons I rest)
  from Cons.prems(5) obtain r where IN: "I < N" and r: "insts g I = Some r" "parent r = b"
      "sn_arity r \<le> length (ops r)" by auto
  from sn_step [OF r(1,2) Cons.prems(3,2,1) r(3)] obtain g1 where
    res: "sn_simdInst g I = Inr g1" and s: "sn_stepped g g1 b D I rest r" by blast
  let ?M = "[nextInst g ..< nextInst g + length (sn_before r)] @ I #
        [nextInst g + length (sn_before r) ..<
           nextInst g + length (sn_before r) + length (sn_after r)]"
  note k = sn_stepped_keeps [OF s]
  have wf1: "wfFunc g1" by (rule sn_stepped_wf [OF s Cons.prems(1,3)])
  have d1: "distinct (blocks g1 b)" by (rule sn_stepped_distinct [OF s Cons.prems(1,3,2)])
  have b1: "blocks g1 b = (D @ ?M) @ rest" by (simp add: sn_stepped_blocks [OF s])
  have N1: "N \<le> nextInst g1" using Cons.prems(4) k(1) by simp
  have rec1: "\<forall>i\<in>set rest. i < N \<and> (\<exists>r. insts g1 i = Some r \<and> parent r = b \<and>
                                  sn_arity r \<le> length (ops r))"
    using Cons.prems(4,5) k(2) by auto
  from Cons.IH [OF wf1 d1 b1 N1 rec1] obtain g' E where
    f: "foldE sn_simdInst rest g1 = Inr g'" and
    bl: "blocks g' = (blocks g1)(b := (D @ ?M) @ E)" and
    it: "sn_items N g' E = concat (map (sn_mark g1 b) rest)" and
    ke: "\<forall>j<nextInst g1. insts g' j = insts g1 j" "nextInst g1 \<le> nextInst g'" and
    w: "wfFunc g'" "distinct (blocks g' b)" and
    l: "layout g' = layout g1" "nextBlock g' = nextBlock g1" "fargs g' = fargs g1"
       "fname g' = fname g1"
    by blast
  have Mlt: "\<forall>j\<in>set ?M. j < nextInst g1"
    using Cons.prems(4) IN s by (auto simp: sn_stepped_def)
  have "sn_items N g' ?M = sn_items N g1 ?M"
    by (rule sn_items_cong) (use Mlt ke(1) in blast)
  also have "\<dots> = sn_mark g b I" by (rule sn_stepped_items [OF s Cons.prems(4) IN r(1)])
  finally have m1: "sn_items N g' ?M = sn_mark g b I" .
  have me: "map (sn_mark g1 b) rest = map (sn_mark g b) rest"
  proof (rule map_cong [OF refl])
    fix i assume "i \<in> set rest"
    then have "i < nextInst g" using Cons.prems(4,5) by auto
    then show "sn_mark g1 b i = sn_mark g b i" by (intro sn_mark_cong k(2))
  qed
  have m2: "sn_items N g' E = concat (map (sn_mark g b) rest)" using it unfolding me .
  have items: "sn_items N g' (?M @ E) = concat (map (sn_mark g b) (I # rest))"
    using m1 m2 by (simp add: sn_items_def)
  have bl': "blocks g' = (blocks g)(b := D @ (?M @ E))"
    using bl by (simp add: sn_stepped_blocks [OF s])
  have ke': "\<forall>j<nextInst g. insts g' j = insts g j" "nextInst g \<le> nextInst g'"
    using ke k(1,2) by auto
  have fr: "layout g' = layout g" "nextBlock g' = nextBlock g" "fargs g' = fargs g"
    "fname g' = fname g"
    using l k by simp_all
  have "foldE sn_simdInst (I # rest) g = Inr g'" using res f by (simp add: bindE_Inr)
  with bl' items ke' w fr show ?case by blast
qed

lemma sn_inv_init: "snWf F \<Longrightarrow> sn_inv F F {}"
  by (simp add: sn_inv_def snWf_def)

lemma sn_inv_block:
  assumes wfF: "snWf F" and inv: "sn_inv F g V" and nv: "BB \<notin> V"
  shows "\<exists>g'. foldE sn_simdInst (blocks g BB) g = Inr g' \<and> sn_inv F g' (insert BB V)"
proof -
  let ?N = "nextInst F"
  from inv have wf: "wfFunc g" and dist: "\<forall>b. distinct (blocks g b)" and N: "?N \<le> nextInst g"
    and old: "\<forall>j<?N. insts g j = insts F j"
    and unv: "\<forall>b. b \<notin> V \<longrightarrow> blocks g b = blocks F b"
    and vis: "\<forall>b\<in>V. sn_view ?N g b = sn_marked F b"
    and fr: "layout g = layout F" "nextBlock g = nextBlock F" "fargs g = fargs F"
      "fname g = fname F"
    by (simp_all add: sn_inv_def)
  have bb: "blocks g BB = blocks F BB" using unv nv by simp
  have blk: "blocks g BB = [] @ blocks F BB" using bb by simp
  have ltF: "\<forall>i\<in>set (blocks F BB). i < ?N" using wfF by (auto simp: snWf_def wfFunc_def)
  have recs: "\<forall>i\<in>set (blocks F BB). i < ?N \<and> (\<exists>r. insts g i = Some r \<and> parent r = BB \<and>
                                  sn_arity r \<le> length (ops r))"
  proof
    fix i assume i: "i \<in> set (blocks F BB)"
    then obtain r where "insts F i = Some r" "parent r = BB" "sn_arity r \<le> length (ops r)"
      using wfF unfolding snWf_def by blast
    moreover have "i < ?N" using ltF i by blast
    ultimately show "i < ?N \<and> (\<exists>r. insts g i = Some r \<and> parent r = BB \<and>
                                  sn_arity r \<le> length (ops r))"
      using old by simp
  qed
  from sn_block [OF wf dist [rule_format] blk N recs] obtain g' E where
    f: "foldE sn_simdInst (blocks F BB) g = Inr g'" and
    bl: "blocks g' = (blocks g)(BB := [] @ E)" and
    it: "sn_items ?N g' E = concat (map (sn_mark g BB) (blocks F BB))" and
    ke: "\<forall>j<nextInst g. insts g' j = insts g j" "nextInst g \<le> nextInst g'" and
    w: "wfFunc g'" "distinct (blocks g' BB)" and
    l: "layout g' = layout g" "nextBlock g' = nextBlock g" "fargs g' = fargs g"
       "fname g' = fname g"
    by blast
  have me: "map (sn_mark g BB) (blocks F BB) = map (sn_mark F BB) (blocks F BB)"
  proof (rule map_cong [OF refl])
    fix i assume "i \<in> set (blocks F BB)"
    then have "i < ?N" using ltF by blast
    then show "sn_mark g BB i = sn_mark F BB i" using old by (intro sn_mark_cong) simp
  qed
  have vBB: "sn_view ?N g' BB = sn_marked F BB"
    using it unfolding me by (simp add: sn_view_def sn_marked_def bl)
  have d': "\<forall>b. distinct (blocks g' b)"
    using dist w(2) by (auto simp: bl)
  have old': "\<forall>j<?N. insts g' j = insts F j" using old ke(1) N by auto
  have unv': "\<forall>b. b \<notin> insert BB V \<longrightarrow> blocks g' b = blocks F b"
    using unv by (simp add: bl)
  have vis': "\<forall>b\<in>insert BB V. sn_view ?N g' b = sn_marked F b"
  proof
    fix b assume b: "b \<in> insert BB V"
    show "sn_view ?N g' b = sn_marked F b"
    proof (cases "b = BB")
      case True
      then show ?thesis using vBB by simp
    next
      case False
      then have bv: "b \<in> V" using b by simp
      have same: "blocks g' b = blocks g b" using False by (simp add: bl)
      have "\<forall>j\<in>set (blocks g b). insts g' j = insts g j"
        using wf ke(1) by (auto simp: wfFunc_def)
      then have "sn_items ?N g' (blocks g b) = sn_items ?N g (blocks g b)"
        by (rule sn_items_cong)
      then show ?thesis using vis bv by (simp add: sn_view_def same)
    qed
  qed
  have "sn_inv F g' (insert BB V)"
    unfolding sn_inv_def using w(1) d' N ke(2) old' unv' vis' l fr by simp
  with f bb show ?thesis by auto
qed

lemma sn_inv_blocks:
  assumes "snWf F" "sn_inv F g V" "distinct bs" "set bs \<inter> V = {}"
  shows "\<exists>g'. foldE (\<lambda>g BB. foldE sn_simdInst (blocks g BB) g) bs g = Inr g' \<and>
              sn_inv F g' (V \<union> set bs)"
  using assms
proof (induction bs arbitrary: g V)
  case Nil
  then show ?case by simp
next
  case (Cons BB bs)
  have nv: "BB \<notin> V" using Cons.prems(4) by simp
  from sn_inv_block [OF Cons.prems(1,2) nv] obtain g1 where
    s: "foldE sn_simdInst (blocks g BB) g = Inr g1" "sn_inv F g1 (insert BB V)" by blast
  have d: "distinct bs" "set bs \<inter> insert BB V = {}" using Cons.prems(3,4) by auto
  from Cons.IH [OF Cons.prems(1) s(2) d] obtain g' where
    f: "foldE (\<lambda>g BB. foldE sn_simdInst (blocks g BB) g) bs g1 = Inr g'"
       "sn_inv F g' (insert BB V \<union> set bs)" by blast
  have "insert BB V \<union> set bs = V \<union> set (BB # bs)" by auto
  then show ?case using s(1) f by (simp add: bindE_Inr)
qed

text \<open>
  Claim C7, as the code has it. A function with an ignored name is returned as it is. On
  any other function \<open>sn_runOnFunction\<close> returns, and in its result every visited block is
  the old block with, around every instruction, the markers of \<open>sn_before\<close> and
  \<open>sn_after\<close>: one \<^verbatim>\<open>dummy_extract\<close> before a load, store or atomic for each of its inspected
  operands that is not a constant, one \<^verbatim>\<open>dummy_broadcast\<close> after a load or an atomic, one
  \<^verbatim>\<open>dummy_ptest\<close> before a conditional branch whose condition is not a constant. Nothing
  else changes: the old instructions, the blocks not visited, the block order and the
  signature are the same.
\<close>

theorem native_cost_markers:
  assumes wf: "snWf F" and dd: "distinct domOrder" and dl: "distinct (layout F)"
  shows "if sn_isIgnoredFunc (fname F) then sn_runOnFunction domOrder F = Inr F
         else (\<exists>F'. sn_runOnFunction domOrder F = Inr F' \<and>
                (\<forall>b\<in>set domOrder \<union> set (layout F).
                    sn_view (nextInst F) F' b = sn_marked F b) \<and>
                (\<forall>b. b \<notin> set domOrder \<union> set (layout F) \<longrightarrow> blocks F' b = blocks F b) \<and>
                (\<forall>j<nextInst F. insts F' j = insts F j) \<and>
                layout F' = layout F \<and> nextBlock F' = nextBlock F \<and>
                fargs F' = fargs F \<and> fname F' = fname F)"
proof (cases "sn_isIgnoredFunc (fname F)")
  case True
  then show ?thesis by (simp add: sn_runOnFunction_def)
next
  case False
  from sn_inv_blocks [OF wf sn_inv_init [OF wf] dd] obtain F1 where
    p1: "foldE (\<lambda>g BB. foldE sn_simdInst (blocks g BB) g) domOrder F = Inr F1"
    and i1: "sn_inv F F1 ({} \<union> set domOrder)" by auto
  have l1: "layout F1 = layout F" using i1 by (simp add: sn_inv_def)
  let ?rest = "filter (\<lambda>BB. BB \<notin> set domOrder) (layout F1)"
  have dr: "distinct ?rest" "set ?rest \<inter> ({} \<union> set domOrder) = {}"
    using dl l1 by auto
  from sn_inv_blocks [OF wf i1 dr] obtain F' where
    p2: "foldE (\<lambda>g BB. foldE sn_simdInst (blocks g BB) g) ?rest F1 = Inr F'"
    and i2: "sn_inv F F' (({} \<union> set domOrder) \<union> set ?rest)" by blast
  have V: "({} \<union> set domOrder) \<union> set ?rest = set domOrder \<union> set (layout F)"
    using l1 by auto
  have run: "sn_runOnFunction domOrder F = Inr F'"
    using False p1 p2 by (simp add: sn_runOnFunction_def bindE_Inr)
  from i2 [unfolded V] have
    "(\<forall>b\<in>set domOrder \<union> set (layout F). sn_view (nextInst F) F' b = sn_marked F b) \<and>
     (\<forall>b. b \<notin> set domOrder \<union> set (layout F) \<longrightarrow> blocks F' b = blocks F b) \<and>
     (\<forall>j<nextInst F. insts F' j = insts F j) \<and>
     layout F' = layout F \<and> nextBlock F' = nextBlock F \<and>
     fargs F' = fargs F \<and> fname F' = fname F"
    unfolding sn_inv_def by blast
  with run False show ?thesis by auto
qed

lemma exMem_wf: "snWf exMem"
  unfolding snWf_def
proof (intro conjI allI ballI)
  show "wfFunc exMem" by (auto simp: wfFunc_def exMem_def)
  show "distinct (blocks exMem b)" for b by (simp add: exMem_def)
  show "\<exists>r. insts exMem i = Some r \<and> parent r = b \<and> sn_arity r \<le> length (ops r)"
    if "i \<in> set (blocks exMem b)" for b i
    using that
    by (auto simp: exMem_def inBlock_def mkInst_def sn_arity_def split: if_splits)
qed

theorem native_cost_markers_witness:
  "snWf exMem \<and> distinct [0, 1, 2 :: nat] \<and> distinct (layout exMem) \<and>
   \<not> sn_isIgnoredFunc (fname exMem) \<and>
   (\<exists>F'. sn_runOnFunction [0, 1, 2] exMem = Inr F' \<and>
      sn_view 6 F' 0 = [sn_marker 0 dummy_extract, Old 0, sn_marker 0 dummy_broadcast,
                        sn_marker 0 dummy_extract, sn_marker 0 dummy_extract, Old 1,
                        sn_marker 0 dummy_ptest, Old 2] \<and>
      sn_view 6 F' 1 = [sn_marker 1 dummy_extract, Old 3, Old 4] \<and>
      sn_view 6 F' 2 = [Old 5] \<and>
      insts F' 1 = insts exMem 1 \<and> layout F' = [0, 1, 2])"
proof -
  have d: "distinct [0, 1, 2 :: nat]" "distinct (layout exMem)" by (simp_all add: exMem_def)
  have ni: "\<not> sn_isIgnoredFunc (fname exMem)"
    by (simp add: sn_isIgnoredFunc_def exMem_def startswith_def ignored_def)
  have n: "nextInst exMem = 6" "layout exMem = [0, 1, 2]" by (simp_all add: exMem_def)
  have m0: "sn_marked exMem 0 = [sn_marker 0 dummy_extract, Old 0, sn_marker 0 dummy_broadcast,
                        sn_marker 0 dummy_extract, sn_marker 0 dummy_extract, Old 1,
                        sn_marker 0 dummy_ptest, Old 2]"
    by (simp add: sn_marked_def sn_mark_def exMem_def inBlock_def mkInst_def sn_before_def
        sn_after_def sn_memIndices_def isConstant_def isUnconditional_def)
  have m1: "sn_marked exMem 1 = [sn_marker 1 dummy_extract, Old 3, Old 4]"
    by (simp add: sn_marked_def sn_mark_def exMem_def inBlock_def mkInst_def sn_before_def
        sn_after_def sn_memIndices_def isConstant_def isUnconditional_def)
  have m2: "sn_marked exMem 2 = [Old 5]"
    by (simp add: sn_marked_def sn_mark_def exMem_def inBlock_def mkInst_def sn_before_def
        sn_after_def sn_memIndices_def isConstant_def isUnconditional_def)
  from native_cost_markers [OF exMem_wf d] ni obtain F' where
    r: "sn_runOnFunction [0, 1, 2] exMem = Inr F'" and
    v: "\<forall>b\<in>set [0, 1, 2] \<union> set (layout exMem). sn_view (nextInst exMem) F' b = sn_marked exMem b"
    and i: "\<forall>j<nextInst exMem. insts F' j = insts exMem j" and l: "layout F' = layout exMem"
    by auto
  have "sn_view 6 F' 0 = sn_marked exMem 0" "sn_view 6 F' 1 = sn_marked exMem 1"
    "sn_view 6 F' 2 = sn_marked exMem 2"
    using v by (simp_all add: n)
  moreover have "insts F' 1 = insts exMem 1" using i by (simp add: n)
  ultimately show ?thesis using exMem_wf d ni r l n m0 m1 m2 by auto
qed

text \<open>
  Claim C7 fails on \<open>exConstBr\<close>: its conditional branch has a constant condition, and the
  pass returns the function unchanged, with no \<^verbatim>\<open>dummy_ptest\<close> before the branch.
\<close>

theorem constant_branch_unmarked:
  "sn_runOnFunction [0, 1, 2] exConstBr = Inr exConstBr \<and>
   insts exConstBr 0 =
     Some (inBlock 0 (mkInst Br VoidTy [VConst (CInt 1 1), VBlock 1, VBlock 2] [])) \<and>
   \<not> isUnconditional (inBlock 0 (mkInst Br VoidTy [VConst (CInt 1 1), VBlock 1, VBlock 2] [])) \<and>
   blocks exConstBr 0 = [0]"
  by (simp add: sn_runOnFunction_def sn_isIgnoredFunc_def startswith_def ignored_def
      exConstBr_def sn_simdInst_def getInst_def bindE_def inBlock_def mkInst_def Let_def
      isUnconditional_def getOperand_def isConstant_def)

end
